(* ===== verification/Prelude.thy ===== *)
theory Prelude
  imports Main "HOL-Library.Word" "HOL-Library.Sublist"
begin

text \<open>
  Shared vocabulary of the development. Go strings are byte sequences; an Isabelle
  \<open>char\<close> is exactly one byte, so a Go \<open>string\<close> is modelled as \<open>char list\<close>
  and every length or index below counts bytes, as Go's \<open>len\<close> and \<open>s[i]\<close> do.
  The non-ASCII bytes of the source's UTF-8 literals are written \<open>CHR 0xNN\<close>.
  The theory also holds the list lemmas about scanning a string from its end that the
  path and formatting components share.
\<close>

type_synonym go_string = "char list"

named_theorems model_defs
  "definitions of the model, unfolded to evaluate it on a concrete input"

subsection \<open>Scanning a list from its end\<close>

lemma takeWhile_rev_snoc_true [simp]:
  "P x \<Longrightarrow> takeWhile P (rev (xs @ [x])) = x # takeWhile P (rev xs)"
  by simp

lemma takeWhile_rev_snoc_false [simp]:
  "\<not> P x \<Longrightarrow> takeWhile P (rev (xs @ [x])) = []"
  by simp

lemma dropWhile_rev_snoc_true [simp]:
  "P x \<Longrightarrow> dropWhile P (rev (xs @ [x])) = dropWhile P (rev xs)"
  by simp

lemma dropWhile_rev_snoc_false [simp]:
  "\<not> P x \<Longrightarrow> dropWhile P (rev (xs @ [x])) = x # rev xs"
  by simp

lemma rev_takeWhile_rev_suffix:
  "suffix (rev (takeWhile P (rev xs))) xs"
proof -
  have "prefix (takeWhile P (rev xs)) (rev xs)"
    by (simp add: takeWhile_is_prefix)
  then show ?thesis
    by (simp add: suffix_to_prefix)
qed

lemma rev_dropWhile_rev_prefix:
  "prefix (rev (dropWhile P (rev xs))) xs"
proof -
  have "suffix (dropWhile P (rev xs)) (rev xs)"
    by (simp add: suffix_dropWhile)
  then show ?thesis
    by (metis suffix_to_prefix rev_rev_ident)
qed

end
