(* ===== verification/Filepath.thy ===== *)
theory Filepath
  imports Prelude
begin

text \<open>
  Go's \<open>path/filepath.Base\<close> for a Unix target (\<open>GOOS=linux\<close>, the Lambda runtime),
  called by \<open>Handler\<close> in \<open>src/main.go\<close> on the working directory. The function is
  translated loop by loop from the standard library: the empty path gives \<open>"."\<close>;
  trailing separators are stripped one byte at a time; the volume name (always empty on
  Unix) is dropped; an \<open>int\<close> index scans back from \<open>len(path) - 1\<close> to the last
  separator, stopping at \<open>-1\<close>; what follows it is the result, and a path that was only
  separators gives \<open>"/"\<close>. Both loops are \<^theory_text>\<open>function\<close>s with a measure.

  The abstract specification \<open>base_spec\<close> says what the loops compute: the last
  nonempty segment of the path split at \<open>/\<close>. \<open>Base_refines_base_spec\<close> proves
  the two equal; the remaining lemmas give the properties the handler's response relies on.
\<close>

section \<open>The Go code\<close>

definition Separator :: char where
  "Separator = CHR ''/''"

definition IsPathSeparator :: "char \<Rightarrow> bool" where
  "IsPathSeparator c \<longleftrightarrow> c = CHR ''/''"

definition VolumeName :: "go_string \<Rightarrow> go_string" where
  "VolumeName path = []"

function strip_trailing_separators :: "go_string \<Rightarrow> go_string" where
  "strip_trailing_separators path =
     (if 0 < length path \<and> IsPathSeparator (path ! (length path - 1))
      then strip_trailing_separators (take (length path - 1) path)
      else path)"
  by pat_completeness auto
termination
  by (relation "measure length") auto

function last_separator :: "go_string \<Rightarrow> int \<Rightarrow> int" where
  "last_separator path i =
     (if 0 \<le> i \<and> \<not> IsPathSeparator (path ! nat i)
      then last_separator path (i - 1)
      else i)"
  by pat_completeness auto
termination
  by (relation "measure (\<lambda>(path, i). nat (i + 1))") auto

definition Base :: "go_string \<Rightarrow> go_string" where
  "Base path0 =
     (if path0 = [] then ''.''
      else
        let path1 = strip_trailing_separators path0;
            path2 = drop (length (VolumeName path1)) path1;
            i = last_separator path2 (int (length path2) - 1);
            path3 = (if 0 \<le> i then drop (nat (i + 1)) path2 else path2)
        in if path3 = [] then [Separator] else path3)"


section \<open>Reference specification: the last nonempty segment\<close>

text \<open>\<open>split_sep c s\<close> splits \<open>s\<close> at every \<open>c\<close>, like Go's \<open>strings.Split\<close>.\<close>

fun split_sep :: "char \<Rightarrow> go_string \<Rightarrow> go_string list" where
  "split_sep c [] = [[]]"
| "split_sep c (x # xs) =
     (let r = split_sep c xs in if x = c then [] # r else (x # hd r) # tl r)"

definition base_spec :: "go_string \<Rightarrow> go_string" where
  "base_spec path =
     (if path = [] then ''.''
      else let segs = filter (\<lambda>s. s \<noteq> []) (split_sep CHR ''/'' path)
           in if segs = [] then ''/'' else last segs)"

definition base_name_ok :: "go_string \<Rightarrow> bool" where
  "base_name_ok s \<longleftrightarrow> s = ''/'' \<or> (s \<noteq> [] \<and> CHR ''/'' \<notin> set s)"

section \<open>The loops, in closed form\<close>

lemma strip_trailing_separators_eq:
  "strip_trailing_separators p = rev (dropWhile IsPathSeparator (rev p))"
proof (induction p rule: strip_trailing_separators.induct)
  case (1 p)
  show ?case
  proof (cases "0 < length p \<and> IsPathSeparator (p ! (length p - 1))")
    case True
    then obtain q where p: "p = q @ [p ! (length p - 1)]"
      by (metis append_butlast_last_id butlast_conv_take last_conv_nth length_greater_0_conv)
    with True "1.IH" show ?thesis
      by (metis strip_trailing_separators.simps butlast_conv_take butlast_snoc dropWhile_rev_snoc_true)
  next
    case False
    then show ?thesis
      by (cases p rule: rev_cases) (auto simp: strip_trailing_separators.simps [of p])
  qed
qed

lemma last_separator_eq:
  "n \<le> length p \<Longrightarrow>
   last_separator p (int n - 1) =
     int n - 1 - int (length (takeWhile (\<lambda>c. \<not> IsPathSeparator c) (rev (take n p))))"
proof (induction n)
  case 0
  then show ?case by (simp add: last_separator.simps)
next
  case (Suc n)
  then have n: "n < length p" by simp
  have tk: "take (Suc n) p = take n p @ [p ! n]"
    using n by (simp add: take_Suc_conv_app_nth)
  show ?case
  proof (cases "IsPathSeparator (p ! n)")
    case True
    then show ?thesis
      by (simp add: tk last_separator.simps [of p "int n"])
  next
    case False
    with Suc n show ?thesis
      by (simp add: tk last_separator.simps [of p "int n"])
  qed
qed

lemma Base_eq:
  "Base p =
     (if p = [] then ''.''
      else let q = rev (takeWhile (\<lambda>c. \<not> IsPathSeparator c) (dropWhile IsPathSeparator (rev p)))
           in if q = [] then [Separator] else q)"
proof -
  let ?d = "dropWhile IsPathSeparator (rev p)"
  let ?t = "takeWhile (\<lambda>c. \<not> IsPathSeparator c) ?d"
  have i: "last_separator (rev ?d) (int (length ?d) - 1) =
           int (length ?d) - 1 - int (length ?t)"
    using last_separator_eq [of "length (rev ?d)" "rev ?d"] by simp
  have le: "length ?t \<le> length ?d"
    by (rule length_takeWhile_le)
  have cut: "(if 0 \<le> int (length ?d) - 1 - int (length ?t)
              then drop (nat (int (length ?d) - 1 - int (length ?t) + 1)) (rev ?d)
              else rev ?d) = rev ?t"
  proof (cases "length ?t < length ?d")
    case True
    then have "drop (length ?d - length ?t) (rev ?d) = rev (take (length ?t) ?d)"
      by (simp add: rev_take)
    also have "take (length ?t) ?d = ?t"
      by (metis takeWhile_eq_take)
    finally show ?thesis
      using True by (simp add: nat_diff_distrib)
  next
    case False
    with le have "length ?t = length ?d" by simp
    then have eq: "?t = ?d"
      by (metis takeWhile_eq_take take_all order_refl)
    show ?thesis
      by (simp only: eq, simp)
  qed
  show ?thesis
    by (simp only: Base_def VolumeName_def Let_def strip_trailing_separators_eq
        list.size(3) drop_0 length_rev i cut)
qed


section \<open>Equivalence with the specification\<close>

lemma split_sep_not_Nil [simp]: "split_sep c xs \<noteq> []"
  by (induction xs) (auto simp: Let_def)

lemma split_sep_snoc:
  "split_sep c (xs @ [x]) =
     (if x = c then split_sep c xs @ [[]]
      else butlast (split_sep c xs) @ [last (split_sep c xs) @ [x]])"
proof (induction xs)
  case Nil
  then show ?case by simp
next
  case (Cons y ys)
  obtain s ss where r: "split_sep c ys = s # ss"
    by (cases "split_sep c ys") auto
  show ?case
    using Cons.IH by (cases ss) (auto simp: Let_def r)
qed

lemma last_split_sep:
  "last (split_sep c xs) = rev (takeWhile (\<lambda>x. x \<noteq> c) (rev xs))"
  by (induction xs rule: rev_induct) (auto simp: split_sep_snoc)

lemma filter_split_sep_append_seps:
  "set ys \<subseteq> {c} \<Longrightarrow>
   filter (\<lambda>s. s \<noteq> []) (split_sep c (xs @ ys)) = filter (\<lambda>s. s \<noteq> []) (split_sep c xs)"
proof (induction ys rule: rev_induct)
  case Nil
  then show ?case by simp
next
  case (snoc y ys)
  then have "y = c" and "set ys \<subseteq> {c}" by auto
  moreover from split_sep_snoc [of c "xs @ ys" c]
  have "split_sep c (xs @ ys @ [c]) = split_sep c (xs @ ys) @ [[]]" by simp
  ultimately show ?case
    using snoc.IH by simp
qed

lemma last_filter_last:
  "xs \<noteq> [] \<Longrightarrow> P (last xs) \<Longrightarrow> last (filter P xs) = last xs"
  by (induction xs rule: rev_induct) auto

lemma IsPathSeparator_eq: "IsPathSeparator = (\<lambda>c. c = CHR ''/'')"
  by (rule ext) (simp add: IsPathSeparator_def)

lemma Base_eq_slash:
  "Base p =
     (if p = [] then ''.''
      else let q = rev (takeWhile (\<lambda>c. c \<noteq> CHR ''/'') (dropWhile (\<lambda>c. c = CHR ''/'') (rev p)))
           in if q = [] then ''/'' else q)"
  by (simp add: Base_eq IsPathSeparator_eq Separator_def)

lemma base_spec_append_seps:
  "xs \<noteq> [] \<Longrightarrow> set ys \<subseteq> {CHR ''/''} \<Longrightarrow> base_spec (xs @ ys) = base_spec xs"
  by (simp add: base_spec_def filter_split_sep_append_seps)

lemma base_spec_all_seps:
  "xs \<noteq> [] \<Longrightarrow> set xs \<subseteq> {CHR ''/''} \<Longrightarrow> base_spec xs = ''/''"
  using base_spec_append_seps [of "[CHR ''/'']" "tl xs"]
  by (cases xs) (auto simp: base_spec_def)

lemma base_spec_last_segment:
  assumes "xs \<noteq> []" and "last xs \<noteq> CHR ''/''"
  shows "base_spec xs = rev (takeWhile (\<lambda>c. c \<noteq> CHR ''/'') (rev xs))"
proof -
  let ?segs = "split_sep CHR ''/'' xs"
  have ne: "last ?segs \<noteq> []"
    using assms by (cases xs rule: rev_cases) (auto simp: last_split_sep)
  then have "last (filter (\<lambda>s. s \<noteq> []) ?segs) = last ?segs"
    by (simp add: last_filter_last)
  moreover have "filter (\<lambda>s. s \<noteq> []) ?segs \<noteq> []"
    using ne by (simp add: filter_empty_conv) (metis last_in_set split_sep_not_Nil)
  ultimately show ?thesis
    using assms(1) by (simp add: base_spec_def last_split_sep)
qed

lemma dropWhile_slash_Cons:
  "dropWhile (\<lambda>c. c = CHR ''/'') xs = x # ys \<Longrightarrow> x \<noteq> CHR ''/''"
  by (simp add: dropWhile_eq_Cons_conv)

lemma Base_eq_base_spec:
  "Base p = base_spec p"
proof (cases "p = []")
  case True
  then show ?thesis by (simp add: Base_eq_slash base_spec_def)
next
  case False
  define d where "d = dropWhile (\<lambda>c. c = CHR ''/'') (rev p)"
  define s where "s = rev (takeWhile (\<lambda>c. c = CHR ''/'') (rev p))"
  have split: "p = rev d @ s"
    unfolding d_def s_def by (metis rev_append rev_rev_ident takeWhile_dropWhile_id)
  have seps: "set s \<subseteq> {CHR ''/''}"
    unfolding s_def by (auto dest: set_takeWhileD)
  show ?thesis
  proof (cases d)
    case Nil
    with split seps have "set p \<subseteq> {CHR ''/''}"
      by simp
    moreover from Nil have dw: "dropWhile (\<lambda>c. c = CHR ''/'') (rev p) = []"
      by (simp only: d_def)
    ultimately show ?thesis
      using False by (simp add: Base_eq_slash base_spec_all_seps dw del: dropWhile_eq_Nil_conv)
  next
    case (Cons x d')
    then have x: "x \<noteq> CHR ''/''"
      unfolding d_def by (rule dropWhile_slash_Cons)
    have "base_spec p = base_spec (rev d @ s)"
      using split by (rule arg_cong)
    also have "\<dots> = base_spec (rev d)"
      using Cons seps by (intro base_spec_append_seps) simp_all
    also have "\<dots> = rev (takeWhile (\<lambda>c. c \<noteq> CHR ''/'') d)"
      using Cons x by (simp add: base_spec_last_segment)
    also have "\<dots> = Base p"
      using False Cons x by (simp add: Base_eq_slash d_def [symmetric])
    finally show ?thesis ..
  qed
qed

lemma Base_segment_id:
  "s \<noteq> [] \<Longrightarrow> CHR ''/'' \<notin> set s \<Longrightarrow> Base s = s"
proof -
  assume ne: "s \<noteq> []" and ns: "CHR ''/'' \<notin> set s"
  then have dw: "dropWhile (\<lambda>c. c = CHR ''/'') (rev s) = rev s"
    by (cases s rule: rev_cases) auto
  have tw: "takeWhile (\<lambda>c. c \<noteq> CHR ''/'') (rev s) = rev s"
    using ns by (auto simp: takeWhile_eq_all_conv)
  show ?thesis
    by (simp only: Base_eq_slash Let_def dw tw rev_rev_ident) (simp add: ne)
qed

lemma Base_shape: "Base p = ''/'' \<or> (Base p \<noteq> [] \<and> CHR ''/'' \<notin> set (Base p))"
  by (auto simp: Base_eq_slash Let_def dest: set_takeWhileD)

section \<open>Properties of Base\<close>

text \<open>C16. The byte loops of \<open>filepath.Base\<close> compute exactly the abstract
  specification: \<open>"."\<close> for the empty path, \<open>"/"\<close> for a path of separators only, and
  otherwise the last nonempty segment between separators.\<close>

lemma Base_refines_base_spec:
  "Base p = base_spec p"
  by (rule Base_eq_base_spec)

text \<open>C17. The result of \<open>Base\<close> is never empty, and it holds a separator only when it
  is the root \<open>"/"\<close>: the handler always reports one path segment (or the root).\<close>

lemma Base_well_formed: "base_name_ok (Base p)"
  using Base_shape [of p] by (simp add: base_name_ok_def)

text \<open>For a directory \<open>d/name\<close> whose last component \<open>name\<close> is nonempty and holds
  no separator, \<open>Base\<close> returns exactly \<open>name\<close>, whatever \<open>d\<close> is
  (\<open>/home/user/project\<close> gives \<open>project\<close>).\<close>

lemma Base_dir_name:
  assumes "n \<noteq> []" and "CHR ''/'' \<notin> set n"
  shows "Base (d @ CHR ''/'' # n) = n"
proof -
  have dw: "dropWhile (\<lambda>c. c = CHR ''/'') (rev n @ CHR ''/'' # rev d) = rev n @ CHR ''/'' # rev d"
    using assms by (cases n rule: rev_cases) auto
  have tw: "takeWhile (\<lambda>c. c \<noteq> CHR ''/'') (rev n @ CHR ''/'' # rev d) = rev n"
    using assms(2) by (subst takeWhile_append2) auto
  show ?thesis
    by (simp only: Base_eq_slash Let_def rev_append rev_rev_ident append_assoc append_Cons
        append_Nil rev.simps dw tw) (simp add: assms(1))
qed

text \<open>Trailing separators do not change the base name of a nonempty path.\<close>

lemma Base_append_separators:
  assumes "p \<noteq> []" and "set s \<subseteq> {CHR ''/''}"
  shows "Base (p @ s) = Base p"
proof -
  have "dropWhile (\<lambda>c. c = CHR ''/'') (rev (p @ s)) = dropWhile (\<lambda>c. c = CHR ''/'') (rev p)"
    using assms(2) by (auto simp: dropWhile_append)
  with assms(1) show ?thesis
    by (simp add: Base_eq_slash)
qed

text \<open>\<open>Base\<close> is idempotent: the base name of a base name is itself.\<close>

lemma Base_idempotent: "Base (Base p) = Base p"
  using Base_shape [of p] by (auto simp: Base_segment_id) (simp add: Base_eq_slash)

text \<open>The base name of a nonempty path is a contiguous piece of that path: \<open>Base\<close>
  never invents bytes, so the body of a response only ever echoes bytes of the working
  directory.\<close>

lemma Base_sublist: "p \<noteq> [] \<Longrightarrow> sublist (Base p) p"
proof -
  assume ne: "p \<noteq> []"
  let ?d = "dropWhile (\<lambda>c. c = CHR ''/'') (rev p)"
  let ?q = "rev (takeWhile (\<lambda>c. c \<noteq> CHR ''/'') ?d)"
  show ?thesis
  proof (cases "?q = []")
    case True
    then have "?d = []"
      by (cases ?d) (auto dest: dropWhile_slash_Cons)
    then have "set p \<subseteq> {CHR ''/''}" by auto
    with ne have "CHR ''/'' \<in> set p"
      by (cases p) auto
    then have "sublist ''/'' p"
      by (metis in_set_conv_decomp sublist_appendI append_Cons append_Nil)
    with True ne show ?thesis by (simp add: Base_eq_slash)
  next
    case False
    have "suffix ?q (rev ?d)"
      using rev_takeWhile_rev_suffix [of "\<lambda>c. c \<noteq> CHR ''/''" "rev ?d"] by simp
    moreover have "prefix (rev ?d) p"
      by (rule rev_dropWhile_rev_prefix)
    ultimately have "sublist ?q p"
      by (meson prefix_imp_sublist suffix_imp_sublist sublist_order.order.trans)
    with False ne show ?thesis by (simp add: Base_eq_slash)
  qed
qed

section \<open>Witnesses\<close>

theorem Base_well_formed_witness:
  "base_name_ok (Base ''/srv/app'') \<and> Base ''/srv/app'' = ''app''"
  using Base_well_formed [of "''/srv/app''"] by (simp add: Base_eq_slash)

end
