(* ===== verification/Fmt.thy ===== *)
theory Fmt
  imports Prelude
begin

text \<open>
  Go's \<open>fmt.Sprintf\<close> (the scan \<open>doPrintf\<close> of \<open>fmt/print.go\<close>), which
  \<open>Handler\<close> calls twice with a format ending in \<open>%s\<close>. Arguments are Go strings, as
  in both calls. The scan copies bytes up to each \<open>%\<close>; \<open>%%\<close> prints \<open>%\<close>; a verb
  with an argument left is printed by \<open>printArg\<close>/\<open>fmtString\<close> (\<open>%s\<close>, \<open>%v\<close>: the
  bytes; \<open>%x\<close>, \<open>%X\<close>: hex digits of each byte through the 8-bit \<open>c>>4\<close> and
  \<open>c&0xF\<close>; \<open>%T\<close>: the type name; other verbs: \<open>%!v(string=...)\<close>); a verb with
  none left prints \<open>%!v(MISSING)\<close>, a trailing \<open>%\<close> prints \<open>%!(NOVERB)\<close>, and
  unconsumed arguments are listed as \<open>%!(EXTRA string=..., ...)\<close>.
  Flags, width, precision, argument indices, non-ASCII verbs and \<open>%q\<close> are outside the
  modelled fragment: there the model returns \<open>None\<close> rather than a guess.
\<close>

unbundle bit_operations_syntax

section \<open>Constants and verbs of fmt/print.go\<close>

definition percentBangString :: go_string where
  "percentBangString = ''%!''"

definition missingString :: go_string where
  "missingString = ''(MISSING)''"

definition noVerbString :: go_string where
  "noVerbString = ''%!(NOVERB)''"

definition extraString :: go_string where
  "extraString = ''%!(EXTRA ''"

definition commaSpaceString :: go_string where
  "commaSpaceString = '', ''"

definition ldigits :: go_string where
  "ldigits = ''0123456789abcdefx''"

definition udigits :: go_string where
  "udigits = ''0123456789ABCDEFX''"

definition byte_of :: "char \<Rightarrow> 8 word" where
  "byte_of c = of_char c"

definition fmtSx :: "go_string \<Rightarrow> go_string \<Rightarrow> go_string" where
  "fmtSx s digits =
     concat (map (\<lambda>c. [digits ! unat (drop_bit 4 (byte_of c)), digits ! unat (byte_of c AND 0xF)]) s)"

definition badVerb :: "char \<Rightarrow> go_string \<Rightarrow> go_string" where
  "badVerb verb arg = percentBangString @ [verb] @ ''('' @ ''string'' @ ''='' @ arg @ '')''"

definition fmtString :: "go_string \<Rightarrow> char \<Rightarrow> go_string option" where
  "fmtString v verb =
     (if verb = CHR ''v'' then Some v
      else if verb = CHR ''s'' then Some v
      else if verb = CHR ''x'' then Some (fmtSx v ldigits)
      else if verb = CHR ''X'' then Some (fmtSx v udigits)
      else if verb = CHR ''q'' then None
      else Some (badVerb verb v))"

definition printArg :: "go_string \<Rightarrow> char \<Rightarrow> go_string option" where
  "printArg arg verb =
     (if verb = CHR ''T'' then Some ''string''
      else if verb = CHR ''p'' then Some (badVerb verb arg)
      else fmtString arg verb)"

definition missingArg :: "char \<Rightarrow> go_string" where
  "missingArg verb = percentBangString @ [verb] @ missingString"

definition simple_verb :: "char \<Rightarrow> bool" where
  "simple_verb c \<longleftrightarrow>
     of_char c < (128::nat) \<and> c \<notin> set ''#0+- '' \<and> c \<notin> set ''123456789'' \<and> c \<notin> set ''.*[''"

section \<open>The format scan\<close>

fun doPrintf :: "go_string \<Rightarrow> go_string list \<Rightarrow> nat \<Rightarrow> (go_string \<times> nat) option" where
  "doPrintf [] a argNum = Some ([], argNum)"
| "doPrintf (c # format) a argNum =
     (if c \<noteq> CHR ''%'' then
        map_option (\<lambda>(out, n). (c # out, n)) (doPrintf format a argNum)
      else case format of
        [] \<Rightarrow> Some (noVerbString, argNum)
      | verb # rest \<Rightarrow>
          if \<not> simple_verb verb then None
          else if verb = CHR ''%'' then
            map_option (\<lambda>(out, n). (CHR ''%'' # out, n)) (doPrintf rest a argNum)
          else if length a \<le> argNum then
            map_option (\<lambda>(out, n). (missingArg verb @ out, n)) (doPrintf rest a argNum)
          else
            (case printArg (a ! argNum) verb of
               None \<Rightarrow> None
             | Some s \<Rightarrow> map_option (\<lambda>(out, n). (s @ out, n)) (doPrintf rest a (Suc argNum))))"

fun extraArgs :: "nat \<Rightarrow> go_string list \<Rightarrow> go_string" where
  "extraArgs i [] = []"
| "extraArgs i (arg # rest) =
     (if 0 < i then commaSpaceString else []) @ ''string='' @ arg @ extraArgs (Suc i) rest"

definition Sprintf :: "go_string \<Rightarrow> go_string list \<Rightarrow> go_string option" where
  "Sprintf format a =
     (case doPrintf format a 0 of
        None \<Rightarrow> None
      | Some (out, argNum) \<Rightarrow>
          Some (if argNum < length a then out @ extraString @ extraArgs 0 (drop argNum a) @ '')'' else out))"

fun fmt_fragment :: "go_string \<Rightarrow> bool" where
  "fmt_fragment [] = True"
| "fmt_fragment [c] = True"
| "fmt_fragment (c # verb # rest) =
     (if c = CHR ''%'' then simple_verb verb \<and> verb \<noteq> CHR ''q'' \<and> fmt_fragment rest
      else fmt_fragment (verb # rest))"

section \<open>Lemmas on the scan\<close>

lemma doPrintf_literal:
  "CHR ''%'' \<notin> set lit \<Longrightarrow>
   doPrintf (lit @ f) a n = map_option (\<lambda>(out, m). (lit @ out, m)) (doPrintf f a n)"
proof (induction lit)
  case Nil
  then show ?case by (simp add: option.map_ident case_prod_beta)
next
  case (Cons c lit)
  then have c: "c \<noteq> CHR ''%''" and l: "CHR ''%'' \<notin> set lit"
    by auto
  show ?case
    using Cons.IH [OF l] c by (simp add: option.map_comp comp_def case_prod_beta)
qed

lemma doPrintf_verb_s:
  "n < length a \<Longrightarrow>
   doPrintf (''%s'' @ f) a n = map_option (\<lambda>(out, m). (a ! n @ out, m)) (doPrintf f a (Suc n))"
  by (simp add: simple_verb_def printArg_def fmtString_def)

lemma doPrintf_verb_s_missing:
  "length a \<le> n \<Longrightarrow>
   doPrintf (''%s'' @ f) a n = map_option (\<lambda>(out, m). (''%!s(MISSING)'' @ out, m)) (doPrintf f a n)"
  by (simp add: simple_verb_def missingArg_def percentBangString_def missingString_def)

lemma Sprintf_literal_s:
  "CHR ''%'' \<notin> set lit \<Longrightarrow> Sprintf (lit @ ''%s'') [arg] = Some (lit @ arg)"
  using doPrintf_literal [of lit "''%s''" "[arg]" 0]
  by (simp add: Sprintf_def simple_verb_def printArg_def fmtString_def)

lemma fmtSx_length: "length (fmtSx s digits) = 2 * length s"
  by (induction s) (simp_all add: fmtSx_def)

lemma unat_drop_bit_4_byte: "unat (drop_bit 4 (b :: 8 word)) < 16"
proof -
  have "unat b < 256"
    using unsigned_less [of b] by simp
  moreover have "unat (drop_bit 4 b) = drop_bit 4 (unat b)"
    by (rule unat_drop_bit_eq)
  moreover have "drop_bit 4 (unat b) = unat b div 2 ^ 4"
    by (rule drop_bit_eq_div)
  ultimately show ?thesis
    by simp
qed

lemma unat_and_15_byte: "unat ((b :: 8 word) AND 0xF) < 16"
proof -
  have "unat (b AND 0xF) \<le> unat (0xF :: 8 word)"
    by (rule word_and_le1 [THEN word_le_nat_alt [THEN iffD1]])
  then show ?thesis by simp
qed

lemma ldigits_hex: "k < 16 \<Longrightarrow> ldigits ! k \<in> set (take 16 ldigits)"
  by (intro nth_mem [of k "take 16 ldigits", simplified]) (simp add: ldigits_def)

lemma fmtSx_hex_digits:
  "set (fmtSx s ldigits) \<subseteq> set ''0123456789abcdef''"
proof -
  have "set (fmtSx s ldigits) \<subseteq> set (take 16 ldigits)"
    by (auto simp: fmtSx_def intro!: ldigits_hex unat_drop_bit_4_byte unat_and_15_byte)
  moreover have "take 16 ldigits = ''0123456789abcdef''"
    by (simp add: ldigits_def)
  ultimately show ?thesis by (simp only:)
qed

lemma printArg_Some: "verb \<noteq> CHR ''q'' \<Longrightarrow> \<exists>s. printArg arg verb = Some s"
  by (simp add: printArg_def fmtString_def)

lemma doPrintf_total:
  "fmt_fragment f \<Longrightarrow> \<exists>r. doPrintf f a n = Some r"
proof (induction f arbitrary: n rule: fmt_fragment.induct)
  case 1
  then show ?case by simp
next
  case (2 c)
  then show ?case by (cases "c = CHR ''%''") simp_all
next
  case (3 c verb rest)
  show ?case
  proof (cases "c = CHR ''%''")
    case True
    with "3.prems" have v: "simple_verb verb" "verb \<noteq> CHR ''q''" and r: "fmt_fragment rest"
      by simp_all
    obtain r1 where r1: "doPrintf rest a n = Some r1"
      using "3.IH"(1) True v r by blast
    obtain r2 where r2: "doPrintf rest a (Suc n) = Some r2"
      using "3.IH"(1) True v r by blast
    obtain s where s: "printArg (a ! n) verb = Some s"
      using printArg_Some [OF v(2)] by blast
    show ?thesis
      using r1 r2 s v(1) True by (simp add: case_prod_beta)
  next
    case False
    with "3.prems" have "fmt_fragment (verb # rest)"
      by simp
    then obtain r where "doPrintf (verb # rest) a n = Some r"
      using "3.IH"(2) False by blast
    with False show ?thesis
      by (simp only: doPrintf.simps(2) [of c] if_True) simp
  qed
qed

lemma doPrintf_no_verbs:
  "CHR ''%'' \<notin> set lit \<Longrightarrow> doPrintf lit a n = Some (lit, n)"
  using doPrintf_literal [of lit "[]" a n] by simp

section \<open>Properties of Sprintf\<close>

text \<open>C19. A \<open>%s\<close> verb copies its string argument byte for byte: an argument that
  itself holds \<open>%\<close> verbs is never interpreted as a format.\<close>

theorem Sprintf_substitutes_verbatim:
  assumes "CHR ''%'' \<notin> set pre" and "CHR ''%'' \<notin> set post"
  shows "Sprintf (pre @ ''%s'' @ post) [arg] = Some (pre @ arg @ post)"
proof -
  have "doPrintf (''%s'' @ post) [arg] 0 = Some (arg @ post, 1)"
    using doPrintf_verb_s [of 0 "[arg]" post] doPrintf_no_verbs [OF assms(2), of "[arg]" 1] by simp
  then have "doPrintf (pre @ ''%s'' @ post) [arg] 0 = Some (pre @ arg @ post, 1)"
    using doPrintf_literal [OF assms(1), of "''%s'' @ post" "[arg]" 0] by simp
  then show ?thesis
    by (simp add: Sprintf_def)
qed

text \<open>On every format of the modelled fragment (no flags, width, precision,
  argument index or \<open>%q\<close>), \<open>Sprintf\<close> returns a string for any argument list: the
  scan of the format always ends.\<close>

theorem Sprintf_total:
  assumes "fmt_fragment f"
  shows "\<exists>y. Sprintf f a = Some y"
proof -
  obtain out n where "doPrintf f a 0 = Some (out, n)"
    using doPrintf_total [OF assms, of a 0] by auto
  then show ?thesis
    by (simp add: Sprintf_def)
qed

section \<open>Witnesses\<close>

theorem Sprintf_substitutes_verbatim_witness:
  "CHR ''%'' \<notin> set ''dir: '' \<and> CHR ''%'' \<notin> set ''.'' \<and>
   Sprintf (''dir: '' @ ''%s'' @ ''.'') [''100%d''] = Some ''dir: 100%d.''"
  using Sprintf_substitutes_verbatim [of "''dir: ''" "''.''" "''100%d''"] by simp

theorem Sprintf_total_witness:
  "fmt_fragment ''%s and %x%%'' \<and> (\<exists>y. Sprintf ''%s and %x%%'' [''a''] = Some y)"
proof -
  have frag: "fmt_fragment ''%s and %x%%''"
    by (simp add: simple_verb_def)
  show ?thesis
    using frag Sprintf_total [OF frag, of "[''a'']"] by simp
qed

end
