(* ===== verification/Handler.thy ===== *)
theory Handler
  imports Filepath Fmt
begin

text \<open>
  The function \<open>Handler\<close> of \<open>src/main.go\<close> (lines 14--33) with the types of
  \<open>github.com/aws/aws-lambda-go/events\<close> it takes and returns. The handler reads the
  working directory once (\<open>os.Getwd\<close>, whose outcome is the argument \<open>getwd\<close>: an
  error \<open>Inl err\<close> or a directory \<open>Inr dir\<close>), formats one of two Portuguese messages
  with \<open>fmt.Sprintf\<close> and returns a response and a nil error. Go's \<open>error\<close> is an
  interface: the handler is generic in the error type \<open>'e\<close> and receives its
  \<open>Error()\<close> method as the parameter \<open>Error\<close>; theory \<open>Errors\<close> provides the
  errors \<open>os.Getwd\<close> returns on Linux. \<open>decode_body\<close> is not code: it reads a body
  back, to state that the body determines the outcome.
\<close>

section \<open>Request, response and context\<close>

record APIGatewayProxyRequest =
  Resource :: go_string
  Path :: go_string
  HTTPMethod :: go_string
  Headers_req :: "go_string \<rightharpoonup> go_string"
  QueryStringParameters :: "go_string \<rightharpoonup> go_string"
  PathParameters :: "go_string \<rightharpoonup> go_string"
  StageVariables :: "go_string \<rightharpoonup> go_string"
  Body_req :: go_string
  IsBase64Encoded_req :: bool

record APIGatewayProxyResponse =
  StatusCode :: int
  Headers :: "go_string \<rightharpoonup> go_string"
  MultiValueHeaders :: "go_string \<rightharpoonup> go_string list"
  Body :: go_string
  IsBase64Encoded :: bool

record lambda_context =
  AwsRequestID :: go_string
  InvokedFunctionArn :: go_string
  Deadline :: int

section \<open>The handler\<close>

definition msg_error_fmt :: go_string where
  "msg_error_fmt = ''Erro ao obter o diret'' @ [CHR 0xC3, CHR 0xB3] @ ''rio corrente: %s''"

definition msg_success_fmt :: go_string where
  "msg_success_fmt =
     ''O diret'' @ [CHR 0xC3, CHR 0xB3] @ ''rio corrente '' @ [CHR 0xC3, CHR 0xA9] @ '': %s''"

definition Handler ::
  "('e \<Rightarrow> go_string) \<Rightarrow> lambda_context \<Rightarrow> APIGatewayProxyRequest \<Rightarrow> 'e + go_string
   \<Rightarrow> APIGatewayProxyResponse \<times> 'e option" where
  "Handler Error ctx request getwd =
     (case getwd of
        Inl err \<Rightarrow>
          (\<lparr>StatusCode = 500, Headers = Map.empty, MultiValueHeaders = Map.empty,
            Body = the (Sprintf msg_error_fmt [Error err]), IsBase64Encoded = False\<rparr>, None)
      | Inr currentDir \<Rightarrow>
          (let response = the (Sprintf msg_success_fmt [Base currentDir])
           in (\<lparr>StatusCode = 200, Headers = Map.empty, MultiValueHeaders = Map.empty,
                 Body = response, IsBase64Encoded = False\<rparr>, None)))"

section \<open>Reading a response back\<close>

definition example_context :: lambda_context where
  "example_context = \<lparr>AwsRequestID = ''req-1'', InvokedFunctionArn = [], Deadline = 0\<rparr>"

definition example_request :: APIGatewayProxyRequest where
  "example_request =
     \<lparr>Resource = ''/'', Path = ''/'', HTTPMethod = ''GET'', Headers_req = Map.empty,
      QueryStringParameters = Map.empty, PathParameters = Map.empty, StageVariables = Map.empty,
      Body_req = [], IsBase64Encoded_req = False\<rparr>"

definition success_prefix :: go_string where
  "success_prefix = ''O diret'' @ [CHR 0xC3, CHR 0xB3] @ ''rio corrente '' @ [CHR 0xC3, CHR 0xA9] @ '': ''"

definition error_prefix :: go_string where
  "error_prefix = ''Erro ao obter o diret'' @ [CHR 0xC3, CHR 0xB3] @ ''rio corrente: ''"

definition decode_body :: "go_string \<Rightarrow> (go_string + go_string) option" where
  "decode_body b =
     (if prefix success_prefix b then Some (Inr (drop (length success_prefix) b))
      else if prefix error_prefix b then Some (Inl (drop (length error_prefix) b))
      else None)"

section \<open>The handler in closed form\<close>

lemma msg_success_fmt_split: "msg_success_fmt = success_prefix @ ''%s''"
  by (simp add: msg_success_fmt_def success_prefix_def)

lemma msg_error_fmt_split: "msg_error_fmt = error_prefix @ ''%s''"
  by (simp add: msg_error_fmt_def error_prefix_def)

lemma percent_notin_prefixes:
  "CHR ''%'' \<notin> set success_prefix" "CHR ''%'' \<notin> set error_prefix"
  by (simp_all add: success_prefix_def error_prefix_def)

lemma Sprintf_msg_success: "Sprintf msg_success_fmt [x] = Some (success_prefix @ x)"
  unfolding msg_success_fmt_split by (rule Sprintf_literal_s [OF percent_notin_prefixes(1)])

lemma Sprintf_msg_error: "Sprintf msg_error_fmt [x] = Some (error_prefix @ x)"
  unfolding msg_error_fmt_split by (rule Sprintf_literal_s [OF percent_notin_prefixes(2)])

lemma Handler_eq:
  "Handler Error ctx request getwd =
     (\<lparr>StatusCode = (case getwd of Inl _ \<Rightarrow> 500 | Inr _ \<Rightarrow> 200),
       Headers = Map.empty, MultiValueHeaders = Map.empty,
       Body = (case getwd of Inl err \<Rightarrow> error_prefix @ Error err
                             | Inr currentDir \<Rightarrow> success_prefix @ Base currentDir),
       IsBase64Encoded = False\<rparr>, None)"
  by (cases getwd) (simp_all add: Handler_def Sprintf_msg_success Sprintf_msg_error)

lemma prefixes_differ:
  "\<not> prefix success_prefix (error_prefix @ x)" "\<not> prefix error_prefix (success_prefix @ y)"
  by (simp_all add: success_prefix_def error_prefix_def)

lemma decode_success [simp]: "decode_body (success_prefix @ x) = Some (Inr x)"
  by (simp add: decode_body_def)

lemma decode_error [simp]: "decode_body (error_prefix @ x) = Some (Inl x)"
  using prefixes_differ(1) by (simp add: decode_body_def)

section \<open>Properties of the handler\<close>

text \<open>C1. When \<open>os.Getwd\<close> succeeds with \<open>currentDir\<close>, the handler returns a nil error
  and a response with status 200, empty header maps, \<open>IsBase64Encoded = false\<close>, and body
  \<open>"O diretorio corrente e: "\<close> followed by \<open>filepath.Base currentDir\<close>.\<close>

theorem Handler_success:
  "Handler Error ctx request (Inr currentDir) =
     (\<lparr>StatusCode = 200, Headers = Map.empty, MultiValueHeaders = Map.empty,
       Body = success_prefix @ Base currentDir, IsBase64Encoded = False\<rparr>, None)"
  by (simp add: Handler_eq)

text \<open>C2. When \<open>os.Getwd\<close> fails with \<open>err\<close>, the handler still returns a nil error,
  and a response with status 500 whose body is \<open>"Erro ao obter o diretorio corrente: "\<close>
  followed by \<open>err.Error()\<close>.\<close>

theorem Handler_error:
  "Handler Error ctx request (Inl err) =
     (\<lparr>StatusCode = 500, Headers = Map.empty, MultiValueHeaders = Map.empty,
       Body = error_prefix @ Error err, IsBase64Encoded = False\<rparr>, None)"
  by (simp add: Handler_eq)

text \<open>C3. The status code of every response is 200 or 500, and it is 200 exactly when the
  working directory could be read.\<close>

theorem Handler_status_code:
  "StatusCode (fst (Handler Error ctx request getwd)) \<in> {200, 500} \<and>
   (StatusCode (fst (Handler Error ctx request getwd)) = 200 \<longleftrightarrow> \<not> isl getwd)"
  by (cases getwd) (simp_all add: Handler_eq)

text \<open>C4. The handler never returns a Go error to the Lambda runtime: both outcomes are
  normal responses.\<close>

theorem Handler_never_fails:
  "snd (Handler Error ctx request getwd) = None"
  by (simp add: Handler_eq)

text \<open>C5. The body determines the outcome: decoding it by its fixed prefix recovers
  \<open>Inr (filepath.Base currentDir)\<close> on success and \<open>Inl (err.Error())\<close> on failure.\<close>

theorem Handler_body_roundtrip:
  "decode_body (Body (fst (Handler Error ctx request getwd))) = Some (map_sum Error Base getwd)"
  by (cases getwd) (simp_all add: Handler_eq)

text \<open>C6. For a working directory \<open>dir/name\<close> with a nonempty last component
  \<open>name\<close>, the body reports exactly \<open>name\<close>.\<close>

theorem Handler_reports_last_segment:
  assumes "name \<noteq> []" and "CHR ''/'' \<notin> set name"
  shows "Body (fst (Handler Error ctx request (Inr (dir @ CHR ''/'' # name)))) = success_prefix @ name"
  using assms by (simp add: Handler_eq Base_dir_name)

text \<open>C7. Trailing separators in the working directory do not change the response.\<close>

theorem Handler_trailing_separators:
  assumes "dir \<noteq> []" and "set seps \<subseteq> {CHR ''/''}"
  shows "Handler Error ctx request (Inr (dir @ seps)) = Handler Error ctx request (Inr dir)"
  using assms by (simp add: Handler_eq Base_append_separators)

text \<open>C8. Neither the request nor the invocation context affects the response.\<close>

theorem Handler_request_independent:
  "Handler Error ctx1 request1 getwd = Handler Error ctx2 request2 getwd"
  by (simp add: Handler_eq)

text \<open>C9. A failure body never equals a success body, whatever the error and the
  directory: a caller can tell the two outcomes apart from the body alone.\<close>

theorem Handler_outcomes_distinct:
  "Body (fst (Handler Error ctx1 request1 (Inl err))) \<noteq>
   Body (fst (Handler Error ctx2 request2 (Inr currentDir)))"
  by (simp add: Handler_eq success_prefix_def error_prefix_def)

text \<open>On success the body is the fixed prefix followed by a piece of the working
  directory's own bytes that is one path segment (or the root \<open>"/"\<close>).\<close>

theorem Handler_body_echoes_cwd:
  assumes "currentDir \<noteq> []"
  shows "\<exists>piece. Body (fst (Handler Error ctx request (Inr currentDir))) = success_prefix @ piece \<and>
                sublist piece currentDir \<and> base_name_ok piece"
  using assms Base_sublist [OF assms] Base_shape [of currentDir]
  by (auto simp: Handler_eq base_name_ok_def)

section \<open>Witnesses\<close>

theorem Handler_status_code_witness:
  "StatusCode (fst (Handler id example_context example_request (Inr ''/var/task''))) \<in> {200, 500} \<and>
   (StatusCode (fst (Handler id example_context example_request (Inr ''/var/task''))) = 200 \<longleftrightarrow>
    \<not> isl (Inr ''/var/task'' :: go_string + go_string))"
  using Handler_status_code [of id example_context example_request "Inr ''/var/task''"] by simp

theorem Handler_reports_last_segment_witness:
  "''project'' \<noteq> [] \<and> CHR ''/'' \<notin> set ''project'' \<and>
   Body (fst (Handler id example_context example_request (Inr (''/home/user'' @ CHR ''/'' # ''project'')))) =
     success_prefix @ ''project''"
  using Handler_reports_last_segment [of "''project''" id example_context example_request "''/home/user''"] by simp

theorem Handler_trailing_separators_witness:
  "''/srv/app'' \<noteq> [] \<and> set ''//'' \<subseteq> {CHR ''/''} \<and>
   Handler id example_context example_request (Inr (''/srv/app'' @ ''//'')) = Handler id example_context example_request (Inr ''/srv/app'')"
  using Handler_trailing_separators [of "''/srv/app''" "''//''" id example_context example_request] by simp

theorem Handler_body_echoes_cwd_witness:
  "''/var/task'' \<noteq> [] \<and>
   (\<exists>piece. Body (fst (Handler id example_context example_request (Inr ''/var/task''))) = success_prefix @ piece \<and>
            sublist piece ''/var/task'' \<and> base_name_ok piece)"
  using Handler_body_echoes_cwd [of "''/var/task''" id example_context example_request] by simp

end
