(* ===== verification/Runtime.thy ===== *)
theory Runtime
  imports Handler
begin

text \<open>
  \<open>main\<close> of \<open>src/main.go\<close> (lines 35--38) hands \<open>Handler\<close> to \<open>lambda.Start\<close>,
  which serves invocations one at a time in one process: each is passed to the handler
  with its context, and the returned response is posted back under the request id (a
  non-nil error would be posted as an invocation error instead). Between invocations the
  environment may change the process's working directory or remove it. The runtime is a
  state (\<open>rt_state\<close>: what \<open>os.Getwd\<close> reports now, the responses and the errors
  posted so far) with a step function over events and the set of reachable states; its
  lemmas show by rule induction that every posted response is well formed, and that
  invocations are idempotent while the directory stays put.
\<close>

section \<open>Runtime state and steps\<close>

datatype 'e rt_event =
    Invoke lambda_context APIGatewayProxyRequest
  | Chdir go_string
  | CwdLost 'e

record 'e rt_state =
  cwd :: "'e + go_string"
  posted :: "(go_string \<times> APIGatewayProxyResponse) list"
  errors_posted :: "(go_string \<times> 'e) list"

fun rt_step :: "('e \<Rightarrow> go_string) \<Rightarrow> 'e rt_state \<Rightarrow> 'e rt_event \<Rightarrow> 'e rt_state" where
  "rt_step Error s (Invoke ctx request) =
     (case Handler Error ctx request (cwd s) of
        (response, None) \<Rightarrow> s\<lparr>posted := posted s @ [(AwsRequestID ctx, response)]\<rparr>
      | (response, Some err) \<Rightarrow> s\<lparr>errors_posted := errors_posted s @ [(AwsRequestID ctx, err)]\<rparr>)"
| "rt_step Error s (Chdir dir) = s\<lparr>cwd := Inr dir\<rparr>"
| "rt_step Error s (CwdLost err) = s\<lparr>cwd := Inl err\<rparr>"

fun rt_run :: "('e \<Rightarrow> go_string) \<Rightarrow> 'e rt_state \<Rightarrow> 'e rt_event list \<Rightarrow> 'e rt_state" where
  "rt_run Error s [] = s"
| "rt_run Error s (ev # evs) = rt_run Error (rt_step Error s ev) evs"

definition rt_init :: "'e + go_string \<Rightarrow> 'e rt_state" where
  "rt_init c = \<lparr>cwd = c, posted = [], errors_posted = []\<rparr>"

definition main :: "('e \<Rightarrow> go_string) \<Rightarrow> 'e + go_string \<Rightarrow> 'e rt_event list \<Rightarrow> 'e rt_state" where
  "main Error cwd0 events = rt_run Error (rt_init cwd0) events"

inductive rt_reachable :: "('e \<Rightarrow> go_string) \<Rightarrow> 'e rt_state \<Rightarrow> bool" for Error where
  init: "rt_reachable Error (rt_init c)"
| step: "rt_reachable Error s \<Longrightarrow> rt_reachable Error (rt_step Error s ev)"

fun is_invoke :: "'e rt_event \<Rightarrow> bool" where
  "is_invoke (Invoke ctx request) = True"
| "is_invoke (Chdir dir) = False"
| "is_invoke (CwdLost err) = False"

section \<open>Invariant\<close>

definition response_ok :: "APIGatewayProxyResponse \<Rightarrow> bool" where
  "response_ok r \<longleftrightarrow>
     (StatusCode r = 200 \<and> (\<exists>b. decode_body (Body r) = Some (Inr b))) \<or>
     (StatusCode r = 500 \<and> (\<exists>m. decode_body (Body r) = Some (Inl m)))"

definition rt_inv :: "'e rt_state \<Rightarrow> bool" where
  "rt_inv s \<longleftrightarrow> errors_posted s = [] \<and> list_all (\<lambda>(rid, r). response_ok r) (posted s)"

section \<open>Lemmas\<close>

lemma rt_step_Invoke:
  "rt_step Error s (Invoke ctx request) =
     s\<lparr>posted := posted s @ [(AwsRequestID ctx, fst (Handler Error ctx request (cwd s)))]\<rparr>"
  by (simp add: Handler_eq)

declare rt_step.simps [simp del]

lemmas rt_step_simps [simp] = rt_step_Invoke rt_step.simps(2,3)

lemma response_ok_Handler: "response_ok (fst (Handler Error ctx request getwd))"
  by (cases getwd) (simp_all add: Handler_eq response_ok_def)

lemma rt_step_inv: "rt_inv s \<Longrightarrow> rt_inv (rt_step Error s ev)"
  by (cases ev) (simp_all add: rt_inv_def response_ok_Handler)

lemma rt_run_append: "rt_run Error s (evs @ evs') = rt_run Error (rt_run Error s evs) evs'"
  by (induction evs arbitrary: s) simp_all

lemma rt_run_reachable: "rt_reachable Error s \<Longrightarrow> rt_reachable Error (rt_run Error s evs)"
  by (induction evs arbitrary: s) (simp_all add: rt_reachable.step)

lemma rt_reachable_inv: "rt_reachable Error s \<Longrightarrow> rt_inv s"
proof (induction rule: rt_reachable.induct)
  case (init c)
  then show ?case by (simp add: rt_inv_def rt_init_def)
next
  case (step s ev)
  from step.IH show ?case by (rule rt_step_inv)
qed

section \<open>Properties of the runtime\<close>

text \<open>C11. In every state the runtime can reach, no invocation error has been posted,
  and every posted response has status 200 with a success body or status 500 with a
  failure body.\<close>

theorem runtime_responses_well_formed:
  assumes "rt_reachable Error s"
  shows "errors_posted s = [] \<and>
         (\<forall>(rid, r) \<in> set (posted s). response_ok r)"
  using rt_reachable_inv [OF assms] by (simp add: rt_inv_def list_all_iff)

text \<open>C12. Two invocations with no change of the working directory between them post
  identical responses, and an invocation never changes the working directory.\<close>

theorem runtime_idempotent:
  "posted (rt_run Error s [Invoke ctx1 request1, Invoke ctx2 request2]) =
     posted s @ [(AwsRequestID ctx1, fst (Handler Error ctx1 request1 (cwd s))),
                 (AwsRequestID ctx2, fst (Handler Error ctx1 request1 (cwd s)))] \<and>
   cwd (rt_run Error s [Invoke ctx1 request1, Invoke ctx2 request2]) = cwd s"
  by (simp add: Handler_eq)

text \<open>C13. Every invocation posts exactly one response and nothing else does.\<close>

theorem runtime_one_response_per_invocation:
  "length (posted (rt_run Error s evs)) = length (posted s) + length (filter is_invoke evs)"
proof (induction evs arbitrary: s)
  case Nil
  then show ?case by simp
next
  case (Cons ev evs)
  then show ?case
    by (cases ev) simp_all
qed

section \<open>Witnesses\<close>

theorem runtime_responses_well_formed_witness:
  "rt_reachable id (rt_run id (rt_init (Inr ''/srv/app'')) [Invoke example_context example_request]) \<and>
   errors_posted (rt_run id (rt_init (Inr ''/srv/app'')) [Invoke example_context example_request]) = [] \<and>
   list_all (\<lambda>(rid, r). response_ok r)
     (posted (rt_run id (rt_init (Inr ''/srv/app'')) [Invoke example_context example_request]))"
proof -
  have reach: "rt_reachable id (rt_run id (rt_init (Inr ''/srv/app'')) [Invoke example_context example_request])"
    by (rule rt_run_reachable [OF rt_reachable.init])
  show ?thesis
    using reach runtime_responses_well_formed [OF reach] by (simp add: list_all_iff)
qed

end
