(* ===== verification/Spec.thy ===== *)
theory Spec
  imports Runtime
begin

text \<open>The abstract specification of the function, as the specification document states
  it, and the proof that the Go code refines it. The specification's \<open>OutboundResponse\<close>
  is a status code and a body; its \<open>RequestHandler\<close> answers 200 with a fixed text
  followed by the final segment of the working directory, or 500 with another fixed text
  followed by the error's message. Its machine holds the outcome of the directory query
  and the responses produced so far; between invocations the environment may change or
  remove the directory. The two texts are parameters: the specification writes them in
  English, the code in Portuguese (a divergence recorded separately), and the refinement
  holds for the texts the code uses. \<open>rt_abs\<close> lifts a runtime state to a specification
  state: it forgets request ids, headers and the base64 flag, and reads errors through
  their \<open>Error()\<close> method.\<close>

record spec_response =
  statusCode :: int
  body :: go_string

definition handle_spec :: "go_string \<Rightarrow> go_string \<Rightarrow> go_string + go_string \<Rightarrow> spec_response" where
  "handle_spec ok_text err_text q =
     (case q of
        Inl msg \<Rightarrow> \<lparr>statusCode = 500, body = err_text @ msg\<rparr>
      | Inr dir \<Rightarrow> \<lparr>statusCode = 200, body = ok_text @ base_spec dir\<rparr>)"

record spec_state =
  spec_cwd :: "go_string + go_string"
  responses :: "spec_response list"

datatype spec_event = SInvoke | SChdir go_string | SCwdLost go_string

fun spec_step :: "go_string \<Rightarrow> go_string \<Rightarrow> spec_state \<Rightarrow> spec_event \<Rightarrow> spec_state" where
  "spec_step ok err s SInvoke = s\<lparr>responses := responses s @ [handle_spec ok err (spec_cwd s)]\<rparr>"
| "spec_step ok err s (SChdir dir) = s\<lparr>spec_cwd := Inr dir\<rparr>"
| "spec_step ok err s (SCwdLost msg) = s\<lparr>spec_cwd := Inl msg\<rparr>"

fun spec_run :: "go_string \<Rightarrow> go_string \<Rightarrow> spec_state \<Rightarrow> spec_event list \<Rightarrow> spec_state" where
  "spec_run ok err s [] = s"
| "spec_run ok err s (ev # evs) = spec_run ok err (spec_step ok err s ev) evs"

definition resp_abs :: "APIGatewayProxyResponse \<Rightarrow> spec_response" where
  "resp_abs r = \<lparr>statusCode = StatusCode r, body = Body r\<rparr>"

definition rt_abs :: "('e \<Rightarrow> go_string) \<Rightarrow> 'e rt_state \<Rightarrow> spec_state" where
  "rt_abs Error s =
     \<lparr>spec_cwd = map_sum Error id (cwd s), responses = map (resp_abs \<circ> snd) (posted s)\<rparr>"

fun ev_abs :: "('e \<Rightarrow> go_string) \<Rightarrow> 'e rt_event \<Rightarrow> spec_event" where
  "ev_abs Error (Invoke ctx request) = SInvoke"
| "ev_abs Error (Chdir dir) = SChdir dir"
| "ev_abs Error (CwdLost err) = SCwdLost (Error err)"

lemma Handler_refines_handle_spec:
  "resp_abs (fst (Handler Error ctx request getwd)) =
     handle_spec success_prefix error_prefix (map_sum Error id getwd)"
  by (cases getwd) (simp_all add: Handler_eq resp_abs_def handle_spec_def Base_eq_base_spec)

section \<open>Refinement\<close>

text \<open>C36. The runtime refines the specification's machine: after any sequence of
  invocations and changes of the working directory, the runtime's state, read through
  \<open>rt_abs\<close>, is the state the specification reaches on the same events, with the
  code's texts; and no invocation error is ever posted.\<close>

theorem runtime_refines_spec:
  "rt_abs Error (rt_run Error s evs) =
     spec_run success_prefix error_prefix (rt_abs Error s) (map (ev_abs Error) evs) \<and>
   errors_posted (rt_run Error s evs) = errors_posted s"
proof (induction evs arbitrary: s)
  case Nil
  then show ?case by simp
next
  case (Cons ev evs)
  then show ?case
    by (cases ev) (simp_all add: rt_abs_def Handler_refines_handle_spec)
qed

end
