(* ===== verification/Errors.thy ===== *)
theory Errors
  imports Prelude
begin

text \<open>The Go error values that reach \<open>err.Error()\<close> in \<open>Handler\<close>
  (src/main.go, line 21) when \<open>os.Getwd\<close> fails.  On Linux \<open>os.Getwd\<close> reports a
  failure of \<open>stat\<close> as an \<open>*os.PathError\<close> and a failure of the \<open>getcwd\<close> system
  call as an \<open>*os.SyscallError\<close>, both wrapping a \<open>syscall.Errno\<close>, a \<open>uintptr\<close>
  (here \<open>64 word\<close>).  \<open>go_Error\<close> is the \<open>Error\<close> method of the three types;
  \<open>Errno_Error\<close> takes the platform's message table as a parameter and falls back on
  \<open>"errno " + itoa.Itoa(int(e))\<close>, with \<open>Itoa\<close>/\<open>Uitoa\<close> the digit loop of
  \<open>internal/itoa\<close> over a \<open>[20]byte\<close> buffer.  \<open>dec_digits\<close>, \<open>dec_val\<close> and
  \<open>parse_int\<close> are reference definitions on \<open>nat\<close> and \<open>int\<close> against which the word
  loop is proved correct.\<close>

type_synonym uintptr = "64 word"

datatype go_error =
    Errno uintptr
  | PathError go_string go_string go_error
  | SyscallError go_string go_error

function Uitoa_loop :: "64 word \<Rightarrow> go_string \<Rightarrow> go_string" where
  "Uitoa_loop val buf =
     (if 10 \<le> val
      then (let q = val div 10 in Uitoa_loop q (char_of (unat (48 + val - q * 10)) # buf))
      else char_of (unat (48 + val)) # buf)"
  by pat_completeness auto
termination
proof (relation "measure (\<lambda>(val, buf). unat val)")
  show "wf (measure (\<lambda>(val, buf). unat val))" by simp
next
  fix val :: "64 word" and buf q
  assume "10 \<le> val" and "q = val div 10"
  then show "((q, char_of (unat (48 + val - q * 10)) # buf), val, buf) \<in> measure (\<lambda>(val, buf). unat val)"
    by (simp add: word_le_nat_alt unat_div)
qed

definition Uitoa :: "64 word \<Rightarrow> go_string" where
  "Uitoa val = (if val = 0 then ''0'' else Uitoa_loop val [])"

definition Itoa :: "64 word \<Rightarrow> go_string" where
  "Itoa val = (if sint val < 0 then ''-'' @ Uitoa (- val) else Uitoa val)"

definition Errno_Error :: "go_string list \<Rightarrow> uintptr \<Rightarrow> go_string" where
  "Errno_Error errors e =
     (if 0 \<le> sint e \<and> sint e < int (length errors) \<and> errors ! unat e \<noteq> []
      then errors ! unat e
      else ''errno '' @ Itoa e)"

text \<open>The first entries of \<open>syscall.errors\<close> for \<open>linux/amd64\<close>
  (\<open>zerrors_linux_amd64.go\<close>); entry 0 is the empty string of the Go array literal.\<close>

definition linux_errors_prefix :: "go_string list" where
  "linux_errors_prefix =
     [[], ''operation not permitted'', ''no such file or directory'', ''no such process'',
      ''interrupted system call'', ''input/output error'', ''no such device or address'',
      ''argument list too long'', ''exec format error'', ''bad file descriptor'',
      ''no child processes'', ''resource temporarily unavailable'', ''cannot allocate memory'',
      ''permission denied'']"

fun go_Error :: "go_string list \<Rightarrow> go_error \<Rightarrow> go_string" where
  "go_Error errors (Errno e) = Errno_Error errors e"
| "go_Error errors (PathError op path err) = op @ '' '' @ path @ '': '' @ go_Error errors err"
| "go_Error errors (SyscallError syscall err) = syscall @ '': '' @ go_Error errors err"

fun dec_digits :: "nat \<Rightarrow> go_string" where
  "dec_digits n =
     (if n < 10 then [char_of (48 + n)] else dec_digits (n div 10) @ [char_of (48 + n mod 10)])"

definition dec_val :: "go_string \<Rightarrow> nat" where
  "dec_val s = foldl (\<lambda>acc c. 10 * acc + (of_char c - 48)) 0 s"

definition parse_int :: "go_string \<Rightarrow> int" where
  "parse_int s = (case s of c # ds \<Rightarrow> if c = CHR ''-'' then - int (dec_val ds) else int (dec_val s)
                           | [] \<Rightarrow> 0)"

declare dec_digits.simps [simp del] Uitoa_loop.simps [simp del]

lemma unat_digit_char:
  fixes val :: "64 word"
  shows "unat (48 + val - val div 10 * 10) = 48 + unat val mod 10"
proof -
  have eq: "48 + val - val div 10 * 10 = 48 + val mod 10"
    by (simp only: add_diff_eq [symmetric] minus_div_mult_eq_mod)
  have "unat (val mod 10) < 10"
    by (simp add: unat_mod_distrib)
  then have "unat (48 + val mod 10) = 48 + unat (val mod 10)"
    by (simp add: unat_word_ariths)
  then show ?thesis
    by (simp only: eq) (simp add: unat_mod_distrib)
qed

lemma Uitoa_loop_eq: "Uitoa_loop val buf = dec_digits (unat val) @ buf"
proof (induction val buf rule: Uitoa_loop.induct)
  case (1 val buf)
  show ?case
  proof (cases "10 \<le> val")
    case True
    then have ge: "10 \<le> unat val" by (simp add: word_le_nat_alt)
    have "Uitoa_loop val buf = Uitoa_loop (val div 10) (char_of (48 + unat val mod 10) # buf)"
      using True by (simp add: Uitoa_loop.simps [of val buf] Let_def unat_digit_char)
    also have "\<dots> = dec_digits (unat val div 10) @ char_of (48 + unat val mod 10) # buf"
      using "1.IH" [OF True refl] True by (simp add: unat_digit_char unat_div_distrib)
    also have "\<dots> = dec_digits (unat val) @ buf"
      using ge by (simp add: dec_digits.simps [of "unat val"])
    finally show ?thesis .
  next
    case False
    then have lt: "unat val < 10" by (simp add: word_le_nat_alt not_le)
    then have "unat (48 + val) = 48 + unat val"
      by (simp add: unat_word_ariths)
    with False lt show ?thesis
      by (simp add: Uitoa_loop.simps [of val buf] dec_digits.simps [of "unat val"])
  qed
qed

lemma Uitoa_eq: "Uitoa val = dec_digits (unat val)"
  by (simp add: Uitoa_def Uitoa_loop_eq dec_digits.simps [of 0] char_of_def bit_0)

lemma dec_val_append: "dec_val (xs @ [c]) = 10 * dec_val xs + (of_char c - 48)"
  by (simp add: dec_val_def)

lemma of_char_digit: "d < 10 \<Longrightarrow> of_char (char_of (48 + d)) = (48 + d :: nat)"
  by simp

lemma dec_val_dec_digits: "dec_val (dec_digits n) = n"
proof (induction n rule: dec_digits.induct)
  case (1 n)
  show ?case
  proof (cases "n < 10")
    case True
    then show ?thesis
      by (simp add: dec_digits.simps [of n] dec_val_def)
  next
    case False
    then have "dec_val (dec_digits n) = 10 * (n div 10) + n mod 10"
      using "1.IH" by (simp add: dec_digits.simps [of n] dec_val_append)
    then show ?thesis by simp
  qed
qed

lemma dec_digits_length: "n < 10 ^ k \<Longrightarrow> 0 < k \<Longrightarrow> length (dec_digits n) \<le> k"
proof (induction n arbitrary: k rule: dec_digits.induct)
  case (1 n)
  show ?case
  proof (cases "n < 10")
    case True
    with "1.prems" show ?thesis by (simp add: dec_digits.simps [of n])
  next
    case False
    from "1.prems" obtain k' where k: "k = Suc k'"
      by (cases k) auto
    have "0 < k'"
      using "1.prems"(1) False k by (cases k') auto
    moreover have "n div 10 < 10 ^ k'"
      using "1.prems"(1) k by (simp add: div_less_iff_less_mult mult.commute)
    ultimately have "length (dec_digits (n div 10)) \<le> k'"
      using "1.IH" False by blast
    with False k show ?thesis by (simp add: dec_digits.simps [of n])
  qed
qed

lemma digit_chars: "map (\<lambda>d. char_of (48 + d :: nat)) [0..<10] = ''0123456789''"
  by (simp add: upt_rec char_of_def bit_0)

lemma digit_char_mem: "d < 10 \<Longrightarrow> char_of (48 + d :: nat) \<in> set ''0123456789''"
proof -
  assume "d < 10"
  then have "char_of (48 + d :: nat) \<in> set (map (\<lambda>d. char_of (48 + d :: nat)) [0..<10])"
    by (simp add: image_iff)
  then show ?thesis by (simp only: digit_chars)
qed

lemma dec_digits_digits: "set (dec_digits n) \<subseteq> set ''0123456789''"
proof (induction n rule: dec_digits.induct)
  case (1 n)
  note digit_char_mem [of n] digit_char_mem [of "n mod 10"]
  with "1.IH" show ?case
    by (subst dec_digits.simps) auto
qed

lemma uint_neg_sint: "sint (v :: 64 word) < 0 \<Longrightarrow> uint (- v) = - sint v"
proof -
  assume neg: "sint v < 0"
  have "uint (- v) = (- uint v) mod 2 ^ 64"
    by (simp add: uint_word_ariths)
  also have "uint v = sint v mod 2 ^ 64"
    by (simp add: uint_sint take_bit_eq_mod)
  also have "(- (sint v mod 2 ^ 64)) mod 2 ^ 64 = (- sint v) mod (2 ^ 64 :: int)"
    by (simp add: mod_minus_eq)
  also have "(- sint v) mod 2 ^ 64 = - sint v"
    using neg sint_ge [of v] by (simp add: mod_pos_pos_trivial)
  finally show ?thesis .
qed

lemma uint_nonneg_sint: "0 \<le> sint (v :: 64 word) \<Longrightarrow> uint v = sint v"
proof -
  assume "0 \<le> sint v"
  moreover have "sint v < 2 ^ 63"
    using sint_lt [of v] by simp
  ultimately show ?thesis
    by (simp add: uint_sint take_bit_eq_mod mod_pos_pos_trivial)
qed

lemma int_less_2p63: "int n < 2 ^ 63 \<longleftrightarrow> n < 2 ^ 63"
  by (metis of_nat_less_iff of_nat_numeral of_nat_power)

lemma Uitoa_not_minus: "Uitoa v \<noteq> [] \<and> hd (Uitoa v) \<noteq> CHR ''-''"
proof -
  have ne: "dec_digits n \<noteq> []" for n
    by (subst dec_digits.simps) simp
  have "hd (dec_digits n) \<in> set ''0123456789''" for n
    using dec_digits_digits [of n] ne [of n] by (meson hd_in_set subsetD)
  moreover have "CHR ''-'' \<notin> set ''0123456789''"
    by simp
  ultimately show ?thesis
    using ne by (metis Uitoa_eq)
qed

lemma parse_int_Uitoa: "parse_int (Uitoa v) = int (unat v)"
proof -
  obtain c cs where u: "Uitoa v = c # cs" and c: "c \<noteq> CHR ''-''"
    using Uitoa_not_minus [of v] by (cases "Uitoa v") auto
  then have "parse_int (Uitoa v) = int (dec_val (Uitoa v))"
    by (simp add: parse_int_def)
  also have "dec_val (Uitoa v) = unat v"
    by (simp add: Uitoa_eq dec_val_dec_digits)
  finally show ?thesis .
qed

lemma parse_int_minus_Uitoa: "parse_int (''-'' @ Uitoa v) = - int (unat v)"
  by (simp add: parse_int_def Uitoa_eq dec_val_dec_digits)


lemma sint_of_low: "unat (e :: 64 word) < 2 ^ 63 \<Longrightarrow> sint e = int (unat e)"
proof -
  assume low: "unat e < 2 ^ 63"
  have lt: "uint e < 2 ^ 63"
    using low int_less_2p63 [of "unat e"] by simp
  have ge: "- (2 ^ 63) \<le> uint e"
    by (rule order_trans [OF _ uint_ge_0]) simp
  have "sint e = signed_take_bit 63 (uint e)"
    by (simp add: sint_uint)
  also have "\<dots> = uint e"
    using ge lt by (rule signed_take_bit_int_eq_self)
  finally show ?thesis by simp
qed

lemma Errno_Error_table:
  assumes "unat e < length errors" and "length errors \<le> 2 ^ 63" and "errors ! unat e \<noteq> []"
  shows "Errno_Error errors e = errors ! unat e"
proof -
  have "unat e < 2 ^ 63"
    using assms(1,2) by simp
  then have "sint e = uint e"
    by (simp add: sint_of_low)
  moreover have "uint e < int (length errors)"
    using assms(1) by (metis of_nat_less_iff of_nat_unat)
  ultimately show ?thesis
    using assms(3) by (simp add: Errno_Error_def)
qed

section \<open>Properties of the integer and error formatting\<close>

text \<open>C23. \<open>itoa.Itoa\<close> is decimal notation: reading its output back as a signed
  decimal gives the Go \<open>int\<close> value, for every 64-bit value including the most negative,
  whose negation wraps back to itself.\<close>

theorem Itoa_roundtrip: "parse_int (Itoa v) = sint v"
proof (cases "sint v < 0")
  case True
  then have "Itoa v = ''-'' @ Uitoa (- v)"
    by (simp add: Itoa_def)
  then have "parse_int (Itoa v) = - int (unat (- v))"
    by (simp only: parse_int_minus_Uitoa)
  also have "int (unat (- v)) = uint (- v)"
    by simp
  also have "uint (- v) = - sint v"
    using True by (rule uint_neg_sint)
  finally show ?thesis by simp
next
  case False
  then have "parse_int (Itoa v) = int (unat v)"
    by (simp add: Itoa_def parse_int_Uitoa)
  also have "\<dots> = sint v"
    using False by (simp add: uint_nonneg_sint)
  finally show ?thesis .
qed

text \<open>C24. \<open>itoa.Uitoa\<close> writes into a \<open>[20]byte\<close> buffer from its end: every 64-bit
  value has at most 20 decimal digits, so the index never leaves the buffer, and only
  the bytes \<open>0\<close>..\<open>9\<close> are written.\<close>

theorem Uitoa_fits_buffer:
  "length (Uitoa v) \<le> 20 \<and> set (Uitoa v) \<subseteq> set ''0123456789''"
proof
  have "unat v < 2 ^ 64"
    using unsigned_less [of v] by simp
  also have "(2 :: nat) ^ 64 < 10 ^ 20"
    by simp
  finally show "length (Uitoa v) \<le> 20"
    by (simp add: Uitoa_eq dec_digits_length)
next
  show "set (Uitoa v) \<subseteq> set ''0123456789''"
    using dec_digits_digits [of "unat v"] by (simp only: Uitoa_eq)
qed

end
