(* ===== verification/Getwd.thy ===== *)
theory Getwd
  imports Errors
begin

text \<open>\<open>os.Getwd\<close> for Linux, the call on line 16 of src/main.go, as in the Go 1.22
  standard library: it stats \<open>.\<close>, returns \<open>$PWD\<close> when that is an absolute path naming
  the same file, and otherwise calls \<open>syscall.Getwd\<close>, retrying while it fails with
  \<open>EINTR\<close>.  Every \<open>stat\<close> goes through \<open>os.ignoringEINTR\<close>, which repeats the call
  while it fails with \<open>EINTR\<close>.  The operating system is an environment record: the
  value of \<open>PWD\<close>, the result of the \<open>k\<close>-th \<open>stat(2)\<close> call on each path (an errno or
  the device and inode numbers), and the result of the \<open>k\<close>-th \<open>getcwd(2)\<close> call (an
  errno or the bytes it wrote, the NUL included).  \<open>ignoringEINTR\<close> is a
  \<^theory_text>\<open>partial_function (option)\<close> over the sequence of a call's results: it
  returns \<open>None\<close> when every call is interrupted; the retry loop around
  \<open>syscall.Getwd\<close> has the same shape and is that function on the \<open>getcwd\<close> results.\<close>

definition EINTR :: uintptr where "EINTR = 4"
definition ENOENT :: uintptr where "ENOENT = 2"
definition EINVAL :: uintptr where "EINVAL = 22"

definition PathMax :: nat where "PathMax = 4096"

type_synonym file_id = "64 word \<times> 64 word"

record os_env =
  PWD :: go_string
  stat_sys :: "go_string \<Rightarrow> nat \<Rightarrow> uintptr + file_id"
  getcwd_sys :: "nat \<Rightarrow> uintptr + go_string"

partial_function (option) ignoringEINTR :: "(nat \<Rightarrow> uintptr + 'a) \<Rightarrow> nat \<Rightarrow> (uintptr + 'a) option" where
  "ignoringEINTR f k =
     (case f k of
        Inl e \<Rightarrow> if e = EINTR then ignoringEINTR f (Suc k) else Some (Inl e)
      | Inr x \<Rightarrow> Some (Inr x))"

declare ignoringEINTR.simps [code]

definition statNolog :: "os_env \<Rightarrow> go_string \<Rightarrow> (go_error + file_id) option" where
  "statNolog env name =
     map_option (\<lambda>r. case r of
                       Inl e \<Rightarrow> Inl (PathError ''stat'' name (Errno e))
                     | Inr fi \<Rightarrow> Inr fi)
       (ignoringEINTR (stat_sys env name) 0)"

definition SameFile :: "file_id \<Rightarrow> file_id \<Rightarrow> bool" where
  "SameFile fs1 fs2 = (fst fs1 = fst fs2 \<and> snd fs1 = snd fs2)"

definition sys_Getwd :: "uintptr + go_string \<Rightarrow> uintptr + go_string" where
  "sys_Getwd r =
     (case r of
        Inl err \<Rightarrow> Inl err
      | Inr buf \<Rightarrow>
          (let n = length buf in
           if n < 1 \<or> n > PathMax \<or> buf ! (n - 1) \<noteq> CHR 0x00 then Inl EINVAL
           else if buf ! 0 \<noteq> CHR ''/'' then Inl ENOENT
           else Inr (take (n - 1) buf)))"

definition getwd_retry :: "os_env \<Rightarrow> nat \<Rightarrow> (uintptr + go_string) option" where
  "getwd_retry env k = ignoringEINTR (\<lambda>i. sys_Getwd (getcwd_sys env i)) k"

definition NewSyscallError :: "go_string \<Rightarrow> uintptr + go_string \<Rightarrow> go_string \<times> go_error option" where
  "NewSyscallError syscall r =
     (case r of Inl e \<Rightarrow> ([], Some (SyscallError syscall (Errno e))) | Inr s \<Rightarrow> (s, None))"

definition Getwd :: "os_env \<Rightarrow> (go_string \<times> go_error option) option" where
  "Getwd env =
     (case statNolog env ''.'' of
        None \<Rightarrow> None
      | Some (Inl err) \<Rightarrow> Some ([], Some err)
      | Some (Inr dot) \<Rightarrow>
          (let dir = PWD env;
               slow = map_option (NewSyscallError ''getwd'') (getwd_retry env 0) in
           if 0 < length dir \<and> dir ! 0 = CHR ''/'' then
             (case statNolog env dir of
                None \<Rightarrow> None
              | Some (Inr d) \<Rightarrow> if SameFile dot d then Some (dir, None) else slow
              | Some (Inl _) \<Rightarrow> slow)
           else slow))"

definition delay_getcwd :: "nat \<Rightarrow> os_env \<Rightarrow> os_env" where
  "delay_getcwd d env =
     env\<lparr>getcwd_sys := (\<lambda>k. if k < d then Inl EINTR else getcwd_sys env (k - d))\<rparr>"

definition getwd_outcome :: "go_string \<times> go_error option \<Rightarrow> go_error + go_string" where
  "getwd_outcome r = (case snd r of Some err \<Rightarrow> Inl err | None \<Rightarrow> Inr (fst r))"

definition interrupted :: "os_env \<Rightarrow> nat \<Rightarrow> bool" where
  "interrupted env i = (sys_Getwd (getcwd_sys env i) = Inl EINTR)"

definition example_env :: os_env where
  "example_env =
     \<lparr>PWD = [], stat_sys = (\<lambda>p k. Inr (1, 7)),
      getcwd_sys = (\<lambda>k. if k < 3 then Inl EINTR else Inr (''/var/task'' @ [CHR 0x00]))\<rparr>"

definition example_env_removed :: os_env where
  "example_env_removed = \<lparr>PWD = [], stat_sys = (\<lambda>p k. Inr (1, 7)), getcwd_sys = (\<lambda>k. Inl ENOENT)\<rparr>"

lemmas getwd_eval = Getwd_def statNolog_def getwd_retry_def ignoringEINTR.simps sys_Getwd_def
  NewSyscallError_def EINTR_def ENOENT_def PathMax_def

section \<open>The \<open>EINTR\<close> retry loop\<close>

lemma ignoringEINTR_interrupted:
  "f k = Inl EINTR \<Longrightarrow> ignoringEINTR f k = ignoringEINTR f (Suc k)"
  by (simp add: ignoringEINTR.simps [of f k])

lemma ignoringEINTR_not_interrupted:
  "f k \<noteq> Inl EINTR \<Longrightarrow> ignoringEINTR f k = Some (f k)"
  by (auto simp add: ignoringEINTR.simps [of f k] split: sum.split)

lemma ignoringEINTR_skip:
  "(\<forall>i. k \<le> i \<and> i < k + d \<longrightarrow> f i = Inl EINTR) \<Longrightarrow> ignoringEINTR f k = ignoringEINTR f (k + d)"
proof (induction d arbitrary: k)
  case 0
  then show ?case by simp
next
  case (Suc d)
  then have "f k = Inl EINTR" by simp
  then have "ignoringEINTR f k = ignoringEINTR f (Suc k)"
    by (rule ignoringEINTR_interrupted)
  also have "\<dots> = ignoringEINTR f (Suc k + d)"
    using Suc.prems by (intro Suc.IH) simp
  finally show ?case by simp
qed

lemma ignoringEINTR_returns:
  assumes "k \<le> j" and "f j \<noteq> Inl EINTR" and "\<forall>i. k \<le> i \<and> i < j \<longrightarrow> f i = Inl EINTR"
  shows "ignoringEINTR f k = Some (f j)"
proof -
  have "ignoringEINTR f k = ignoringEINTR f (k + (j - k))"
    using assms(1,3) by (intro ignoringEINTR_skip) simp
  also have "\<dots> = Some (f j)"
    using assms(1,2) by (simp add: ignoringEINTR_not_interrupted)
  finally show ?thesis .
qed

lemma ignoringEINTR_result:
  assumes ret: "ignoringEINTR f k = Some r"
  shows "\<exists>j\<ge>k. (\<forall>i. k \<le> i \<and> i < j \<longrightarrow> f i = Inl EINTR) \<and> f j \<noteq> Inl EINTR \<and> r = f j"
proof (rule ignoringEINTR.raw_induct [where P = "\<lambda>f k r. \<exists>j\<ge>k. (\<forall>i. k \<le> i \<and> i < j \<longrightarrow> f i = Inl EINTR) \<and>
           f j \<noteq> Inl EINTR \<and> r = f j", OF _ ret])
  fix loop f k r
  assume IH: "\<And>f k r. loop f k = Some r \<Longrightarrow> \<exists>j\<ge>k. (\<forall>i. k \<le> i \<and> i < j \<longrightarrow> f i = Inl EINTR) \<and>
           f j \<noteq> Inl EINTR \<and> r = f j"
    and eq: "(case f k of
        Inl e \<Rightarrow> if e = EINTR then loop f (Suc k) else Some (Inl e)
      | Inr x \<Rightarrow> Some (Inr x)) = Some r"
  show "\<exists>j\<ge>k. (\<forall>i. k \<le> i \<and> i < j \<longrightarrow> f i = Inl EINTR) \<and> f j \<noteq> Inl EINTR \<and> r = f j"
  proof (cases "f k = Inl EINTR")
    case True
    with eq have "loop f (Suc k) = Some r" by simp
    then obtain j where j: "Suc k \<le> j" "\<forall>i. Suc k \<le> i \<and> i < j \<longrightarrow> f i = Inl EINTR"
        "f j \<noteq> Inl EINTR" "r = f j"
      using IH by blast
    have "\<forall>i. k \<le> i \<and> i < j \<longrightarrow> f i = Inl EINTR"
      using j(2) True by (metis Suc_leI le_neq_implies_less)
    with j show ?thesis by (intro exI [of _ j]) simp
  next
    case False
    with eq have "r = f k"
      by (auto split: sum.splits if_splits)
    with False show ?thesis by (intro exI [of _ k]) auto
  qed
qed

lemma ignoringEINTR_Some_iff:
  "ignoringEINTR f k = Some r \<longleftrightarrow>
     (\<exists>j\<ge>k. (\<forall>i. k \<le> i \<and> i < j \<longrightarrow> f i = Inl EINTR) \<and> f j \<noteq> Inl EINTR \<and> r = f j)"
  using ignoringEINTR_result ignoringEINTR_returns by blast

lemma ignoringEINTR_not_EINTR: "ignoringEINTR f k = Some r \<Longrightarrow> r \<noteq> Inl EINTR"
  by (drule ignoringEINTR_result) auto

lemma ignoringEINTR_first:
  assumes "k \<le> j" and "f j \<noteq> Inl EINTR"
  shows "\<exists>j'\<ge>k. ignoringEINTR f k = Some (f j') \<and> f j' \<noteq> Inl EINTR"
proof -
  define j' where "j' = (LEAST i. k \<le> i \<and> f i \<noteq> Inl EINTR)"
  have j': "k \<le> j' \<and> f j' \<noteq> Inl EINTR"
    unfolding j'_def by (rule LeastI [where k = j]) (simp add: assms)
  have "\<forall>i. k \<le> i \<and> i < j' \<longrightarrow> f i = Inl EINTR"
    unfolding j'_def using not_less_Least by blast
  with j' show ?thesis
    using ignoringEINTR_returns [of k j' f] by blast
qed

lemma ignoringEINTR_returns_if: "\<exists>j. f j \<noteq> Inl EINTR \<Longrightarrow> \<exists>r. ignoringEINTR f 0 = Some r"
  using ignoringEINTR_first [of 0] by blast

lemma option_eq_by_Some: "(\<And>r. x = Some r \<longleftrightarrow> y = Some r) \<Longrightarrow> x = y"
  by (cases x; cases y) auto

lemma ignoringEINTR_shift:
  "ignoringEINTR (\<lambda>i. if i < d then Inl EINTR else f (i - d)) (k + d) = ignoringEINTR f k"
  (is "ignoringEINTR ?g (k + d) = _")
proof (rule option_eq_by_Some)
  fix r
  show "ignoringEINTR ?g (k + d) = Some r \<longleftrightarrow> ignoringEINTR f k = Some r"
  proof
    assume "ignoringEINTR ?g (k + d) = Some r"
    then obtain j where j: "k + d \<le> j" "\<forall>i. k + d \<le> i \<and> i < j \<longrightarrow> ?g i = Inl EINTR"
        "?g j \<noteq> Inl EINTR" "r = ?g j"
      unfolding ignoringEINTR_Some_iff by blast
    have "\<forall>i. k \<le> i \<and> i < j - d \<longrightarrow> f i = Inl EINTR"
    proof (intro allI impI)
      fix i
      assume "k \<le> i \<and> i < j - d"
      then have "k + d \<le> i + d \<and> i + d < j"
        by linarith
      with j(2) [rule_format, of "i + d"] show "f i = Inl EINTR"
        by simp
    qed
    moreover from j have "f (j - d) \<noteq> Inl EINTR" "r = f (j - d)"
      by simp_all
    ultimately show "ignoringEINTR f k = Some r"
      unfolding ignoringEINTR_Some_iff using j(1) by (intro exI [of _ "j - d"]) auto
  next
    assume "ignoringEINTR f k = Some r"
    then obtain j where j: "k \<le> j" "\<forall>i. k \<le> i \<and> i < j \<longrightarrow> f i = Inl EINTR"
        "f j \<noteq> Inl EINTR" "r = f j"
      unfolding ignoringEINTR_Some_iff by blast
    have "\<forall>i. k + d \<le> i \<and> i < j + d \<longrightarrow> ?g i = Inl EINTR"
    proof (intro allI impI)
      fix i
      assume "k + d \<le> i \<and> i < j + d"
      then have "k \<le> i - d \<and> i - d < j"
        by linarith
      with j(2) [rule_format, of "i - d"] show "?g i = Inl EINTR"
        by simp
    qed
    moreover from j have "?g (j + d) \<noteq> Inl EINTR" "r = ?g (j + d)"
      by simp_all
    ultimately show "ignoringEINTR ?g (k + d) = Some r"
      unfolding ignoringEINTR_Some_iff using j(1) by (intro exI [of _ "j + d"]) auto
  qed
qed

lemma ignoringEINTR_delay:
  "ignoringEINTR (\<lambda>i. if i < d then Inl EINTR else f (i - d)) 0 = ignoringEINTR f 0"
proof -
  have "ignoringEINTR (\<lambda>i. if i < d then Inl EINTR else f (i - d)) 0 =
        ignoringEINTR (\<lambda>i. if i < d then Inl EINTR else f (i - d)) (0 + d)"
    by (rule ignoringEINTR_skip) simp
  also have "\<dots> = ignoringEINTR f 0"
    by (rule ignoringEINTR_shift)
  finally show ?thesis .
qed

section \<open>\<open>os.Getwd\<close>\<close>

lemma getwd_retry_result:
  "getwd_retry env k = Some r \<Longrightarrow> \<exists>j\<ge>k. \<not> interrupted env j \<and> r = sys_Getwd (getcwd_sys env j)"
  unfolding getwd_retry_def interrupted_def by (blast dest: ignoringEINTR_result)

lemma getwd_retry_first:
  "k \<le> j \<Longrightarrow> \<not> interrupted env j \<Longrightarrow>
     \<exists>j'\<ge>k. getwd_retry env k = Some (sys_Getwd (getcwd_sys env j')) \<and> \<not> interrupted env j'"
  unfolding getwd_retry_def interrupted_def by (rule ignoringEINTR_first)

lemma getwd_retry_returns:
  "k \<le> j \<Longrightarrow> \<not> interrupted env j \<Longrightarrow> \<forall>i. k \<le> i \<and> i < j \<longrightarrow> interrupted env i \<Longrightarrow>
     getwd_retry env k = Some (sys_Getwd (getcwd_sys env j))"
  unfolding getwd_retry_def interrupted_def by (rule ignoringEINTR_returns)

lemma getwd_retry_delay: "getwd_retry (delay_getcwd d env) 0 = getwd_retry env 0"
proof -
  have "(\<lambda>i. sys_Getwd (getcwd_sys (delay_getcwd d env) i)) =
        (\<lambda>i. if i < d then Inl EINTR else sys_Getwd (getcwd_sys env (i - d)))"
    by (rule ext) (simp add: delay_getcwd_def sys_Getwd_def)
  then show ?thesis
    using ignoringEINTR_delay [of d "\<lambda>i. sys_Getwd (getcwd_sys env i)"] by (simp add: getwd_retry_def)
qed

lemma statNolog_result:
  assumes "statNolog env name = Some (Inl err)"
  shows "\<exists>e. e \<noteq> EINTR \<and> err = PathError ''stat'' name (Errno e)"
proof -
  from assms obtain z where z: "ignoringEINTR (stat_sys env name) 0 = Some z"
    and zr: "(case z of Inl e \<Rightarrow> Inl (PathError ''stat'' name (Errno e)) | Inr fi \<Rightarrow> Inr fi) = Inl err"
    by (auto simp: statNolog_def)
  from zr obtain e where "z = Inl e" "err = PathError ''stat'' name (Errno e)"
    by (cases z) auto
  with z show ?thesis
    using ignoringEINTR_not_EINTR by blast
qed

lemma sys_Getwd_Inr:
  assumes "sys_Getwd r = Inr s"
  shows "s \<noteq> [] \<and> hd s = CHR ''/''"
proof (cases r)
  case (Inl e)
  with assms show ?thesis by (simp add: sys_Getwd_def)
next
  case (Inr buf)
  with assms have ok: "buf \<noteq> []" "buf ! (length buf - 1) = CHR 0x00"
      "buf ! 0 = CHR ''/''" and s: "s = take (length buf - 1) buf"
    by (auto simp add: sys_Getwd_def Let_def split: if_splits)
  have "length buf \<noteq> 1"
    using ok by (cases buf) auto
  with ok have "1 < length buf" by (cases buf) auto
  with ok s show ?thesis
    by (cases buf) auto
qed

lemma Getwd_cases:
  assumes "Getwd env = Some r"
  obtains (stat) e where "e \<noteq> EINTR" and "r = ([], Some (PathError ''stat'' ''.'' (Errno e)))"
  | (pwd) "PWD env \<noteq> []" and "hd (PWD env) = CHR ''/''" and "r = (PWD env, None)"
  | (syscall) j where "r = NewSyscallError ''getwd'' (sys_Getwd (getcwd_sys env j))"
      and "\<not> interrupted env j"
proof (cases "statNolog env ''.''")
  case None
  with assms show ?thesis by (simp add: Getwd_def)
next
  case (Some d)
  show ?thesis
  proof (cases d)
    case (Inl err)
    with Some obtain e where "e \<noteq> EINTR" "err = PathError ''stat'' ''.'' (Errno e)"
      using statNolog_result by blast
    with Some Inl assms stat show ?thesis by (simp add: Getwd_def)
  next
    case (Inr dot)
    have slow: "thesis" if "map_option (NewSyscallError ''getwd'') (getwd_retry env 0) = Some r"
    proof -
      from that obtain x where "getwd_retry env 0 = Some x" and "r = NewSyscallError ''getwd'' x"
        by auto
      moreover from this obtain j where "x = sys_Getwd (getcwd_sys env j)" "\<not> interrupted env j"
        using getwd_retry_result by blast
      ultimately show ?thesis
        using syscall by simp
    qed
    show ?thesis
    proof (cases "0 < length (PWD env) \<and> PWD env ! 0 = CHR ''/''")
      case abs: True
      show ?thesis
      proof (cases "statNolog env (PWD env)")
        case None
        with Some Inr abs assms show ?thesis by (simp add: Getwd_def)
      next
        case (Some d')
        show ?thesis
        proof (cases "\<exists>fi. d' = Inr fi \<and> SameFile dot fi")
          case True
          with \<open>statNolog env ''.'' = Some d\<close> Some Inr abs assms pwd show ?thesis
            by (cases "PWD env") (auto simp: Getwd_def)
        next
          case False
          with \<open>statNolog env ''.'' = Some d\<close> Some Inr abs assms slow show ?thesis
            by (cases d') (auto simp: Getwd_def Let_def)
        qed
      qed
    next
      case False
      with Some Inr assms slow show ?thesis
        by (auto simp: Getwd_def Let_def)
    qed
  qed
qed

lemma delay_getcwd_fields [simp]:
  "PWD (delay_getcwd d env) = PWD env" "stat_sys (delay_getcwd d env) = stat_sys env"
  by (simp_all add: delay_getcwd_def)

lemma Errno_Error_linux_EINTR:
  assumes msg: "Errno_Error linux_errors_prefix e = ''interrupted system call''"
  shows "e = EINTR"
proof (cases "0 \<le> sint e \<and> sint e < int (length linux_errors_prefix) \<and> linux_errors_prefix ! unat e \<noteq> []")
  case True
  then have "uint e < int (length linux_errors_prefix)"
    using uint_nonneg_sint by simp
  then have lt: "unat e < length linux_errors_prefix"
    by (metis of_nat_less_iff of_nat_unat)
  from True msg have "linux_errors_prefix ! unat e = ''interrupted system call''"
    by (simp add: Errno_Error_def)
  moreover have "linux_errors_prefix ! 4 = ''interrupted system call''"
    "4 < length linux_errors_prefix" "distinct linux_errors_prefix"
    by (simp_all add: linux_errors_prefix_def)
  ultimately have "unat e = 4"
    using lt nth_eq_iff_index_eq by metis
  then show ?thesis
    by (simp add: word_unat_eq_iff EINTR_def)
next
  case False
  with msg show ?thesis
    by (simp add: Errno_Error_def)
qed

lemma Getwd_error_form:
  assumes "Getwd env = Some (dir, Some err)"
  shows "dir = [] \<and> (\<exists>e. e \<noteq> EINTR \<and>
           (err = PathError ''stat'' ''.'' (Errno e) \<or> err = SyscallError ''getwd'' (Errno e)))"
  using assms
proof (cases rule: Getwd_cases)
  case (syscall j)
  then show ?thesis
    by (auto simp add: NewSyscallError_def interrupted_def split: sum.splits)
qed simp_all

section \<open>Properties of \<open>os.Getwd\<close>\<close>

text \<open>C25. The \<open>EINTR\<close> retry loop of \<open>os.Getwd\<close> returns exactly when some
  \<open>getcwd\<close> call from the current one on is not interrupted; when every call is
  interrupted it runs forever.\<close>

theorem getwd_retry_terminates_iff:
  "getwd_retry env k \<noteq> None \<longleftrightarrow> (\<exists>j\<ge>k. \<not> interrupted env j)"
proof
  assume "getwd_retry env k \<noteq> None"
  then obtain r where "getwd_retry env k = Some r" by blast
  then show "\<exists>j\<ge>k. \<not> interrupted env j"
    using getwd_retry_result by blast
next
  assume "\<exists>j\<ge>k. \<not> interrupted env j"
  then obtain j where "k \<le> j" "\<not> interrupted env j" by blast
  then show "getwd_retry env k \<noteq> None"
    using getwd_retry_first by blast
qed

text \<open>C26. \<open>os.Getwd\<close> returns whenever each of its system calls is eventually
  not interrupted by a signal: some \<open>getcwd\<close> call, and some \<open>stat\<close> of \<open>.\<close> and of
  \<open>$PWD\<close>; this holds on every path through it (\<open>stat\<close> failing, \<open>$PWD\<close> accepted,
  the system call).\<close>

theorem Getwd_returns:
  assumes "\<exists>j. \<not> interrupted env j"
    and "\<exists>j. stat_sys env ''.'' j \<noteq> Inl EINTR"
    and "\<exists>j. stat_sys env (PWD env) j \<noteq> Inl EINTR"
  shows "Getwd env \<noteq> None"
proof -
  obtain a where a: "ignoringEINTR (stat_sys env ''.'') 0 = Some a"
    using ignoringEINTR_returns_if [OF assms(2)] by blast
  obtain b where b: "ignoringEINTR (stat_sys env (PWD env)) 0 = Some b"
    using ignoringEINTR_returns_if [OF assms(3)] by blast
  from assms(1) obtain j where "0 \<le> j" "\<not> interrupted env j" by blast
  then obtain x where x: "getwd_retry env 0 = Some x"
    using getwd_retry_first by blast
  show ?thesis
    using a b x by (auto simp add: Getwd_def statNolog_def Let_def split: sum.splits)
qed

text \<open>C27. Interruptions are invisible: delaying the answer of \<open>getcwd\<close> by any number
  of \<open>EINTR\<close> failures does not change what \<open>os.Getwd\<close> returns.\<close>

theorem Getwd_EINTR_invisible: "Getwd (delay_getcwd d env) = Getwd env"
  unfolding Getwd_def statNolog_def by (simp only: getwd_retry_delay delay_getcwd_fields)

text \<open>C28. A directory returned without error is an absolute path: nonempty and starting
  with \<open>/\<close>, on both the \<open>$PWD\<close> path and the system-call path.\<close>

theorem Getwd_success_absolute:
  assumes "Getwd env = Some (dir, None)"
  shows "dir \<noteq> [] \<and> hd dir = CHR ''/''"
  using assms
proof (cases rule: Getwd_cases)
  case (syscall j)
  then show ?thesis
    by (auto simp add: NewSyscallError_def dest: sys_Getwd_Inr split: sum.splits)
qed simp_all

text \<open>C29. Every error \<open>os.Getwd\<close> returns comes with an empty directory and is either
  the \<open>*os.PathError\<close> of \<open>stat .\<close> or the \<open>*os.SyscallError\<close> of \<open>getwd\<close>, and
  the errno it wraps is never \<open>EINTR\<close>: both retry loops absorb interruptions.\<close>

theorem Getwd_error_shape:
  assumes "Getwd env = Some (dir, Some err)"
  shows "dir = [] \<and> (\<exists>e. e \<noteq> EINTR \<and>
           (err = PathError ''stat'' ''.'' (Errno e) \<or> err = SyscallError ''getwd'' (Errno e)))"
  using assms by (rule Getwd_error_form)

text \<open>C30. \<open>syscall.Getwd\<close> returns the path the kernel wrote, without its NUL, for
  every absolute path that fits \<open>PathMax\<close>.\<close>

theorem sys_Getwd_roundtrip:
  assumes "p \<noteq> []" and "hd p = CHR ''/''" and "length p < PathMax"
  shows "sys_Getwd (Inr (p @ [CHR 0x00])) = Inr p"
  using assms by (cases p) (simp_all add: sys_Getwd_def nth_append)

section \<open>Witnesses\<close>

theorem Getwd_returns_witness:
  "(\<exists>j. \<not> interrupted example_env j) \<and> (\<exists>j. stat_sys example_env ''.'' j \<noteq> Inl EINTR) \<and>
   (\<exists>j. stat_sys example_env (PWD example_env) j \<noteq> Inl EINTR) \<and>
   Getwd example_env = Some (''/var/task'', None)"
proof -
  have h1: "\<exists>j. \<not> interrupted example_env j"
    by (rule exI [of _ 3]) (simp add: interrupted_def example_env_def sys_Getwd_def EINTR_def PathMax_def)
  have h2: "\<exists>j. stat_sys example_env ''.'' j \<noteq> Inl EINTR"
    "\<exists>j. stat_sys example_env (PWD example_env) j \<noteq> Inl EINTR"
    by (simp_all add: example_env_def)
  have "Getwd example_env \<noteq> None"
    using Getwd_returns [OF h1 h2] .
  moreover have "Getwd example_env = Some (''/var/task'', None)"
    by (simp add: getwd_eval example_env_def)
  ultimately show ?thesis
    using h1 h2 by simp
qed

theorem Getwd_success_absolute_witness:
  "Getwd example_env = Some (''/var/task'', None) \<and> ''/var/task'' \<noteq> [] \<and> hd ''/var/task'' = CHR ''/''"
proof -
  have h: "Getwd example_env = Some (''/var/task'', None)"
    by (simp add: getwd_eval example_env_def)
  show ?thesis
    using h Getwd_success_absolute [OF h] by simp
qed

theorem Getwd_error_shape_witness:
  "Getwd example_env_removed = Some ([], Some (SyscallError ''getwd'' (Errno 2))) \<and>
   (\<exists>e. e \<noteq> EINTR \<and> (SyscallError ''getwd'' (Errno 2) = PathError ''stat'' ''.'' (Errno e) \<or>
        SyscallError ''getwd'' (Errno 2) = SyscallError ''getwd'' (Errno e)))"
proof -
  have h: "Getwd example_env_removed = Some ([], Some (SyscallError ''getwd'' (Errno 2)))"
    by (simp add: getwd_eval example_env_removed_def)
  show ?thesis
    using h Getwd_error_shape [OF h] by simp
qed

theorem sys_Getwd_roundtrip_witness:
  "''/var/task'' \<noteq> [] \<and> hd ''/var/task'' = CHR ''/'' \<and> length ''/var/task'' < PathMax \<and>
   sys_Getwd (Inr (''/var/task'' @ [CHR 0x00])) = Inr ''/var/task''"
proof -
  have h: "''/var/task'' \<noteq> []" "hd ''/var/task'' = CHR ''/''" "length ''/var/task'' < PathMax"
    by (simp_all add: PathMax_def)
  show ?thesis
    using h sys_Getwd_roundtrip [OF h] by simp
qed

end
