(* ===== verification/Utf8.thy ===== *)
theory Utf8
  imports Getwd Handler
begin

text \<open>Well-formed UTF-8, the text type of the response body. A Go \<open>string\<close> is any
  byte sequence; the body travels to API Gateway inside JSON, whose strings are Unicode
  text, and \<open>encoding/json\<close> replaces every byte that is not part of well-formed UTF-8
  by U+FFFD. \<open>utf8_valid\<close> is the predicate of Go's \<open>utf8.ValidString\<close>: ASCII bytes,
  and multi-byte sequences whose second byte lies in the accept range of the first byte
  (\<open>acceptRanges\<close>: no overlong forms, no surrogates, nothing above U+10FFFF) and whose
  further bytes are continuation bytes. An ASCII byte is never part of a multi-byte
  sequence, so every ASCII byte of a well-formed string is a boundary: cutting at a
  separator keeps both sides well formed. That is why \<open>filepath.Base\<close> preserves
  well-formedness.\<close>

definition utf8_cont :: "char \<Rightarrow> bool" where
  "utf8_cont c \<longleftrightarrow> (0x80 :: nat) \<le> of_char c \<and> of_char c \<le> (0xBF :: nat)"

definition utf8_accept :: "nat \<Rightarrow> char \<Rightarrow> bool" where
  "utf8_accept b c =
     (let x = of_char c :: nat in
      if b = 0xE0 then 0xA0 \<le> x \<and> x \<le> 0xBF
      else if b = 0xED then 0x80 \<le> x \<and> x \<le> 0x9F
      else if b = 0xF0 then 0x90 \<le> x \<and> x \<le> 0xBF
      else if b = 0xF4 then 0x80 \<le> x \<and> x \<le> 0x8F
      else 0x80 \<le> x \<and> x \<le> 0xBF)"

fun utf8_valid :: "go_string \<Rightarrow> bool" where
  "utf8_valid [] = True"
| "utf8_valid [c] = (of_char c < (128 :: nat))"
| "utf8_valid (c # c1 # cs) =
     (let b = of_char c :: nat in
      if b < 128 then utf8_valid (c1 # cs)
      else if 0xC2 \<le> b \<and> b \<le> 0xDF then utf8_accept b c1 \<and> utf8_valid cs
      else if 0xE0 \<le> b \<and> b \<le> 0xEF then
        (case cs of c2 # r \<Rightarrow> utf8_accept b c1 \<and> utf8_cont c2 \<and> utf8_valid r | [] \<Rightarrow> False)
      else if 0xF0 \<le> b \<and> b \<le> 0xF4 then
        (case cs of c2 # c3 # r \<Rightarrow> utf8_accept b c1 \<and> utf8_cont c2 \<and> utf8_cont c3 \<and> utf8_valid r
                  | _ \<Rightarrow> False)
      else False)"

definition ascii :: "char \<Rightarrow> bool" where
  "ascii c \<longleftrightarrow> of_char c < (128 :: nat)"

lemma utf8_accept_not_ascii: "utf8_accept b c \<Longrightarrow> \<not> ascii c"
  by (simp add: utf8_accept_def ascii_def Let_def split: if_splits)

lemma utf8_cont_not_ascii: "utf8_cont c \<Longrightarrow> \<not> ascii c"
  by (simp add: utf8_cont_def ascii_def)

lemma utf8_valid_ascii_Cons: "ascii c \<Longrightarrow> utf8_valid (c # cs) = utf8_valid cs"
  by (cases cs) (simp_all add: ascii_def)


lemma utf8_valid_lead_accept:
  "utf8_valid (c # c1 # cs) \<Longrightarrow> \<not> ascii c \<Longrightarrow> utf8_accept (of_char c) c1"
  by (auto simp: Let_def ascii_def split: if_splits list.splits)

lemma utf8_valid_append:
  "utf8_valid xs \<Longrightarrow> utf8_valid ys \<Longrightarrow> utf8_valid (xs @ ys)"
proof (induction xs rule: utf8_valid.induct)
  case 1
  then show ?case by simp
next
  case (2 c)
  then show ?case by (simp add: utf8_valid_ascii_Cons ascii_def)
next
  case (3 c c1 cs)
  then show ?case
    by (auto simp: Let_def split: if_splits list.splits)
qed

lemma utf8_valid_split:
  "utf8_valid (xs @ ys) \<Longrightarrow> ys \<noteq> [] \<Longrightarrow> ascii (hd ys) \<Longrightarrow> utf8_valid xs \<and> utf8_valid ys"
proof (induction xs rule: utf8_valid.induct)
  case 1
  then show ?case by simp
next
  case (2 c)
  then obtain y ys' where ys: "ys = y # ys'" and y: "ascii y"
    by (cases ys) auto
  have "ascii c"
  proof (rule ccontr)
    assume "\<not> ascii c"
    with 2 ys have "utf8_accept (of_char c) y"
      by (intro utf8_valid_lead_accept) simp_all
    with y show False
      by (simp add: utf8_accept_not_ascii)
  qed
  with 2 ys show ?case
    by (simp add: utf8_valid_ascii_Cons del: utf8_valid.simps) (simp add: ascii_def)
next
  case (3 c c1 cs)
  then obtain y ys' where ys: "ys = y # ys'" and y: "ascii y"
    by (cases ys) auto
  show ?case
  proof (cases "of_char c < (128 :: nat)")
    case True
    with "3.prems" "3.IH"(1) show ?thesis
      by (simp add: Let_def)
  next
    case False
    show ?thesis
    proof (cases "0xC2 \<le> (of_char c :: nat) \<and> (of_char c :: nat) \<le> 0xDF")
      case True
      with False "3.prems" "3.IH"(2) show ?thesis
        by (simp add: Let_def)
    next
      case notC: False
      show ?thesis
      proof (cases "0xE0 \<le> (of_char c :: nat) \<and> (of_char c :: nat) \<le> 0xEF")
        case True
        with False notC "3.prems" "3.IH"(3) ys y show ?thesis
          by (cases cs) (auto simp: Let_def dest: utf8_cont_not_ascii)
      next
        case notE: False
        with False notC "3.prems" "3.IH"(4) ys y show ?thesis
          by (cases cs rule: remdups_adj.cases) (auto simp: Let_def dest: utf8_cont_not_ascii split: if_splits list.splits)
      qed
    qed
  qed
qed


lemma utf8_valid_after_ascii:
  assumes "utf8_valid (xs @ ys)" and "xs \<noteq> []" and "ascii (last xs)"
  shows "utf8_valid ys"
proof -
  from assms(2) obtain xs0 a where xs: "xs = xs0 @ [a]"
    by (cases xs rule: rev_cases) auto
  with assms have "utf8_valid (xs0 @ (a # ys))" "ascii a"
    by simp_all
  then have "utf8_valid (a # ys)"
    using utf8_valid_split [of xs0 "a # ys"] by simp
  with \<open>ascii a\<close> show ?thesis
    by (simp add: utf8_valid_ascii_Cons del: utf8_valid.simps)
qed

lemma utf8_valid_ascii: "list_all ascii s \<Longrightarrow> utf8_valid s"
  by (induction s) (simp, simp add: utf8_valid_ascii_Cons del: utf8_valid.simps)

lemma ascii_slash: "ascii (CHR ''/'')"
  by (simp add: ascii_def)

lemma utf8_valid_Base:
  assumes valid: "utf8_valid p"
  shows "utf8_valid (Base p)"
proof (cases "p = []")
  case True
  then show ?thesis by (simp add: Base_eq_slash)
next
  case False
  define t where "t = takeWhile (\<lambda>c. c = CHR ''/'') (rev p)"
  define d where "d = dropWhile (\<lambda>c. c = CHR ''/'') (rev p)"
  have p: "p = rev d @ rev t"
    unfolding t_def d_def by (metis rev_append rev_rev_ident takeWhile_dropWhile_id)
  have vd: "utf8_valid (rev d)"
  proof (cases "t = []")
    case True
    with p valid show ?thesis by simp
  next
    case False
    then have "last t \<in> set t"
      by simp
    then have "last t = CHR ''/''"
      unfolding t_def by (blast dest: set_takeWhileD)
    then have "ascii (hd (rev t))"
      using ascii_slash by (simp add: hd_rev)
    moreover have "utf8_valid (rev d @ rev t)"
      using p valid by simp
    ultimately show ?thesis
      using utf8_valid_split [of "rev d" "rev t"] False by simp
  qed
  define a where "a = takeWhile (\<lambda>c. c \<noteq> CHR ''/'') d"
  define b where "b = dropWhile (\<lambda>c. c \<noteq> CHR ''/'') d"
  have d: "rev d = rev b @ rev a"
    unfolding a_def b_def by (metis rev_append takeWhile_dropWhile_id)
  have va: "utf8_valid (rev a)"
  proof (cases "b = []")
    case True
    with d vd show ?thesis by simp
  next
    case False
    then have "hd b = CHR ''/''"
      using hd_dropWhile [of "\<lambda>c. c \<noteq> CHR ''/''" d] unfolding b_def by simp
    then have "ascii (last (rev b))"
      using False ascii_slash by (simp add: last_rev)
    moreover have "utf8_valid (rev b @ rev a)"
      using d vd by simp
    ultimately show ?thesis
      using utf8_valid_after_ascii [of "rev b" "rev a"] False by simp
  qed
  have "Base p = (if rev a = [] then ''/'' else rev a)"
    using False by (simp add: Base_eq_slash a_def d_def)
  with va show ?thesis
    by (simp add: ascii_def)
qed

lemma sys_Getwd_Inr_buf: "sys_Getwd (Inr buf) = Inr s \<Longrightarrow> buf = s @ [CHR 0x00]"
proof -
  assume ok: "sys_Getwd (Inr buf) = Inr s"
  then have ne: "buf \<noteq> []" and nul: "buf ! (length buf - 1) = CHR 0x00"
    and s: "s = take (length buf - 1) buf"
    by (auto simp: sys_Getwd_def Let_def split: if_splits)
  have "last buf = CHR 0x00"
    using ne nul by (simp add: last_conv_nth)
  with ne s show ?thesis
    by (metis append_butlast_last_id butlast_conv_take)
qed

lemma utf8_valid_Itoa: "utf8_valid (Itoa v)"
proof -
  have digits: "list_all ascii (Uitoa w)" for w
    using dec_digits_digits [of "unat w"]
    by (auto simp: Uitoa_eq list_all_iff ascii_def)
  show ?thesis
    using digits [of v] digits [of "- v"]
    by (simp add: Itoa_def utf8_valid_ascii ascii_def)
qed

text \<open>Every message \<open>Errno.Error\<close> returns is UTF-8 when the table's messages are: a
  message of the table, or \<open>errno\<close> and a decimal number.\<close>

lemma utf8_valid_Errno_Error:
  assumes "list_all utf8_valid errors"
  shows "utf8_valid (Errno_Error errors e)"
proof (cases "0 \<le> sint e \<and> sint e < int (length errors) \<and> errors ! unat e \<noteq> []")
  case True
  then have "uint e < int (length errors)"
    using uint_nonneg_sint by simp
  then have "unat e < length errors"
    by (metis of_nat_less_iff of_nat_unat)
  then have "utf8_valid (errors ! unat e)"
    using assms by (simp add: list_all_length)
  with True show ?thesis
    by (simp add: Errno_Error_def)
next
  case False
  have "utf8_valid (''errno '' @ Itoa e)"
    by (rule utf8_valid_append) (simp_all add: utf8_valid_Itoa)
  with False show ?thesis
    by (simp add: Errno_Error_def)
qed

lemma utf8_valid_linux_errors: "list_all utf8_valid linux_errors_prefix"
  by (simp add: linux_errors_prefix_def)


text \<open>The converse fails: Linux file names are arbitrary bytes, and a directory whose
  name is not UTF-8 (here \<open>caf\<close> followed by the Latin-1 byte for e-acute) yields a body
  that is not UTF-8 either, which the JSON encoding of the response then alters.\<close>

lemma Handler_body_latin1_dir:
  "\<not> utf8_valid (Body (fst (Handler Error ctx request (Inr (''/tmp/caf'' @ [CHR 0xE9])))))"
proof -
  have "Body (fst (Handler Error ctx request (Inr (''/tmp/caf'' @ [CHR 0xE9])))) =
        success_prefix @ ''caf'' @ [CHR 0xE9]"
    by (simp add: Handler_eq Base_eq_slash)
  then show ?thesis
    by (simp add: success_prefix_def utf8_accept_def)
qed

end
