(* ===== verification/Json.thy ===== *)
theory Json
  imports Utf8
begin

text \<open>The JSON encoding of the response, done by \<open>lambda.Start\<close> (src/main.go, line 37)
  when it posts the handler's result to the Lambda Runtime API, as \<open>encoding/json\<close> of
  Go 1.22 does it. The string encoder \<open>appendString\<close> copies safe ASCII bytes and valid
  multi-byte UTF-8 sequences, escapes quote, backslash and control bytes (\<open>\b\<close>,
  \<open>\f\<close>, \<open>\n\<close>, \<open>\r\<close>, \<open>\t\<close> by name, the rest as \<open>\u00XX\<close>), escapes \<open><\<close>,
  \<open>>\<close> and \<open>&\<close> when HTML escaping is on, writes U+2028 and U+2029 as a backslash, \<open>u\<close>
  and their four hex digits, and replaces every byte that does not start a valid sequence by
  the escape of U+FFFD. \<open>appendString_loop\<close> is the Go loop with its two indices (\<open>start\<close>, the
  first byte not yet copied, and \<open>i\<close>); \<open>json_escape\<close> is a reference definition one
  unit at a time, and the two are proved equal. \<open>json_unescape\<close> is a reference decoder
  for the escapes JSON defines; decoding the encoding of well-formed UTF-8 gives it back.
  The response struct is encoded through a JSON value (\<open>json\<close>), field by field in
  declaration order with the tags of \<open>events.APIGatewayProxyResponse\<close>: nil maps as
  \<open>null\<close>, \<open>isBase64Encoded\<close> omitted when false (\<open>omitempty\<close>).\<close>

abbreviation bslash :: char where "bslash \<equiv> CHR 0x5C"
abbreviation dquote :: char where "dquote \<equiv> CHR 0x22"

definition hex :: go_string where "hex = ''0123456789abcdef''"

definition safe_byte :: "char \<Rightarrow> bool" where
  "safe_byte c \<longleftrightarrow> (0x20 :: nat) \<le> of_char c \<and> of_char c < (0x80 :: nat) \<and> c \<noteq> dquote \<and> c \<noteq> bslash"

definition html_safe_byte :: "char \<Rightarrow> bool" where
  "html_safe_byte c \<longleftrightarrow> safe_byte c \<and> c \<noteq> CHR ''<'' \<and> c \<noteq> CHR ''>'' \<and> c \<noteq> CHR ''&''"

definition copied_raw :: "bool \<Rightarrow> char \<Rightarrow> bool" where
  "copied_raw escapeHTML c \<longleftrightarrow> html_safe_byte c \<or> (\<not> escapeHTML \<and> safe_byte c)"

definition escape_ascii :: "char \<Rightarrow> go_string" where
  "escape_ascii c =
     (if c = bslash \<or> c = dquote then [bslash, c]
      else if c = CHR 0x08 then [bslash, CHR ''b'']
      else if c = CHR 0x0C then [bslash, CHR ''f'']
      else if c = CHR 0x0A then [bslash, CHR ''n'']
      else if c = CHR 0x0D then [bslash, CHR ''r'']
      else if c = CHR 0x09 then [bslash, CHR ''t'']
      else [bslash, CHR ''u'', CHR ''0'', CHR ''0'', hex ! (of_char c div 16), hex ! (of_char c mod 16)])"

fun rune_len :: "go_string \<Rightarrow> nat" where
  "rune_len (c # c1 # cs) =
     (let b = of_char c :: nat in
      if 0xC2 \<le> b \<and> b \<le> 0xDF then (if utf8_accept b c1 then 2 else 0)
      else if 0xE0 \<le> b \<and> b \<le> 0xEF then
        (case cs of c2 # _ \<Rightarrow> if utf8_accept b c1 \<and> utf8_cont c2 then 3 else 0 | [] \<Rightarrow> 0)
      else if 0xF0 \<le> b \<and> b \<le> 0xF4 then
        (case cs of c2 # c3 # _ \<Rightarrow> if utf8_accept b c1 \<and> utf8_cont c2 \<and> utf8_cont c3 then 4 else 0
                  | _ \<Rightarrow> 0)
      else 0)"
| "rune_len _ = 0"

definition line_sep :: "go_string \<Rightarrow> bool" where
  "line_sep r \<longleftrightarrow> r = [CHR 0xE2, CHR 0x80, CHR 0xA8] \<or> r = [CHR 0xE2, CHR 0x80, CHR 0xA9]"

definition escape_line_sep :: "go_string \<Rightarrow> go_string" where
  "escape_line_sep r = [bslash, CHR ''u'', CHR ''2'', CHR ''0'', CHR ''2'', hex ! (of_char (last r) mod 16)]"

definition replacement :: go_string where
  "replacement = [bslash, CHR ''u'', CHR ''f'', CHR ''f'', CHR ''f'', CHR ''d'']"

function json_escape :: "bool \<Rightarrow> go_string \<Rightarrow> go_string" where
  "json_escape h [] = []"
| "json_escape h (c # cs) =
     (if of_char c < (128 :: nat) then
        (if copied_raw h c then [c] else escape_ascii c) @ json_escape h cs
      else
        (let n = rune_len (c # cs) in
         if n = 0 then replacement @ json_escape h cs
         else (if line_sep (take n (c # cs)) then escape_line_sep (take n (c # cs)) else take n (c # cs))
              @ json_escape h (drop n (c # cs))))"
  by pat_completeness auto
termination
proof (relation "measure (\<lambda>(h, s). length s)")
  fix h c cs n
  assume "n = rune_len (c # cs)" and "n \<noteq> 0"
  moreover have "rune_len (c # cs) \<le> length (c # cs)"
    by (induction "c # cs" rule: rune_len.induct) (auto simp: Let_def split: list.splits)
  ultimately show "((h, drop n (c # cs)), h, c # cs) \<in> measure (\<lambda>(h, s). length s)"
    by simp
qed auto

function appendString_loop ::
    "bool \<Rightarrow> go_string \<Rightarrow> nat \<Rightarrow> nat \<Rightarrow> go_string \<Rightarrow> go_string" where
  "appendString_loop escapeHTML src start i dst =
     (if i < length src then
        (if of_char (src ! i) < (128 :: nat) then
           (if copied_raw escapeHTML (src ! i)
            then appendString_loop escapeHTML src start (i + 1) dst
            else appendString_loop escapeHTML src (i + 1) (i + 1)
                   (dst @ take (i - start) (drop start src) @ escape_ascii (src ! i)))
         else
           (let size = rune_len (take 4 (drop i src)) in
            if size = 0 then
              appendString_loop escapeHTML src (i + 1) (i + 1)
                (dst @ take (i - start) (drop start src) @ replacement)
            else if line_sep (take size (drop i src)) then
              appendString_loop escapeHTML src (i + size) (i + size)
                (dst @ take (i - start) (drop start src) @ escape_line_sep (take size (drop i src)))
            else appendString_loop escapeHTML src start (i + size) dst))
      else dst @ drop start src)"
  by pat_completeness auto
termination
  by (relation "measure (\<lambda>(h, src, start, i, dst). length src - i)") auto

definition appendString :: "go_string \<Rightarrow> go_string \<Rightarrow> bool \<Rightarrow> go_string" where
  "appendString dst src escapeHTML = appendString_loop escapeHTML src 0 0 (dst @ [dquote]) @ [dquote]"

definition hex_val :: "char \<Rightarrow> nat option" where
  "hex_val c =
     (let x = of_char c :: nat in
      if 48 \<le> x \<and> x \<le> 57 then Some (x - 48)
      else if 97 \<le> x \<and> x \<le> 102 then Some (x - 87)
      else if 65 \<le> x \<and> x \<le> 70 then Some (x - 55)
      else None)"

fun hex4 :: "go_string \<Rightarrow> nat option" where
  "hex4 [a, b, c, d] =
     (case (hex_val a, hex_val b, hex_val c, hex_val d) of
        (Some x1, Some x2, Some x3, Some x4) \<Rightarrow> Some (((x1 * 16 + x2) * 16 + x3) * 16 + x4)
      | _ \<Rightarrow> None)"
| "hex4 _ = None"

definition utf8_encode :: "nat \<Rightarrow> go_string" where
  "utf8_encode v =
     (if v < 0x80 then [char_of v]
      else if v < 0x800 then [char_of (0xC0 + v div 64), char_of (0x80 + v mod 64)]
      else [char_of (0xE0 + v div 4096), char_of (0x80 + (v div 64) mod 64), char_of (0x80 + v mod 64)])"

fun json_unescape :: "go_string \<Rightarrow> go_string option" where
  "json_unescape [] = Some []"
| "json_unescape (c # cs) =
     (if c = bslash then
        (case cs of
           [] \<Rightarrow> None
         | e # rest \<Rightarrow>
             if e = dquote \<or> e = bslash \<or> e = CHR ''/'' then map_option ((#) e) (json_unescape rest)
             else if e = CHR ''b'' then map_option ((#) (CHR 0x08)) (json_unescape rest)
             else if e = CHR ''f'' then map_option ((#) (CHR 0x0C)) (json_unescape rest)
             else if e = CHR ''n'' then map_option ((#) (CHR 0x0A)) (json_unescape rest)
             else if e = CHR ''r'' then map_option ((#) (CHR 0x0D)) (json_unescape rest)
             else if e = CHR ''t'' then map_option ((#) (CHR 0x09)) (json_unescape rest)
             else if e = CHR ''u'' then
               (case rest of
                  h1 # h2 # h3 # h4 # rest' \<Rightarrow>
                    (case hex4 [h1, h2, h3, h4] of
                       None \<Rightarrow> None
                     | Some v \<Rightarrow> map_option ((@) (utf8_encode v)) (json_unescape rest'))
                | _ \<Rightarrow> None)
             else None)
      else map_option ((#) c) (json_unescape cs))"

datatype json = JObject "(go_string \<times> json) list" | JString go_string | JNumber int | JBool bool | JNull

definition int_decimal :: "int \<Rightarrow> go_string" where
  "int_decimal i = (if i < 0 then ''-'' @ dec_digits (nat (- i)) else dec_digits (nat i))"

fun join_comma :: "go_string list \<Rightarrow> go_string" where
  "join_comma [] = []"
| "join_comma [x] = x"
| "join_comma (x # xs) = x @ '','' @ join_comma xs"

fun json_encode :: "bool \<Rightarrow> json \<Rightarrow> go_string" where
  "json_encode h (JObject fs) =
     ''{'' @ join_comma (map (\<lambda>(k, v). appendString [] k h @ '':'' @ json_encode h v) fs) @ ''}''"
| "json_encode h (JString s) = appendString [] s h"
| "json_encode h (JNumber n) = int_decimal n"
| "json_encode h (JBool b) = (if b then ''true'' else ''false'')"
| "json_encode h JNull = ''null''"

definition json_of_response :: "APIGatewayProxyResponse \<Rightarrow> json option" where
  "json_of_response r =
     (if Headers r = Map.empty \<and> MultiValueHeaders r = Map.empty then
        Some (JObject ([(''statusCode'', JNumber (StatusCode r)), (''headers'', JNull),
                        (''multiValueHeaders'', JNull), (''body'', JString (Body r))] @
                       (if IsBase64Encoded r then [(''isBase64Encoded'', JBool True)] else [])))
      else None)"

definition Marshal :: "APIGatewayProxyResponse \<Rightarrow> go_string option" where
  "Marshal r = map_option (json_encode True) (json_of_response r)"

lemma rune_len_le: "rune_len s \<le> length s"
  by (induction s rule: rune_len.induct) (auto simp: Let_def split: list.splits)

lemma rune_len_cases: "rune_len s = 0 \<or> 2 \<le> rune_len s"
  by (induction s rule: rune_len.induct) (auto simp: Let_def split: list.splits)


lemma rune_len_take4: "rune_len (take 4 s) = rune_len s"
  by (cases s rule: rune_len.cases) (auto simp: Let_def split: list.splits)

lemma take_drop_extend:
  "start \<le> i \<Longrightarrow> i + n \<le> length src \<Longrightarrow>
     take (i + n - start) (drop start src) = take (i - start) (drop start src) @ take n (drop i src)"
proof -
  assume a: "start \<le> i" "i + n \<le> length src"
  have "take (i + n - start) (drop start src) = take ((i - start) + n) (drop start src)"
    using a by (simp add: add.commute)
  also have "\<dots> = take (i - start) (drop start src) @ take n (drop (i - start) (drop start src))"
    by (simp add: take_add)
  also have "drop (i - start) (drop start src) = drop i src"
    using a by simp
  finally show ?thesis .
qed

lemma drop_Suc_nth: "i < length xs \<Longrightarrow> drop i xs = xs ! i # drop (Suc i) xs"
  by (simp add: Cons_nth_drop_Suc)

lemma appendString_loop_eq:
  "start \<le> i \<Longrightarrow> i \<le> length src \<Longrightarrow>
     appendString_loop h src start i dst =
       dst @ take (i - start) (drop start src) @ json_escape h (drop i src)"
proof (induction h src start i dst rule: appendString_loop.induct)
  case (1 h src start i dst)
  show ?case
  proof (cases "i < length src")
    case False
    with "1.prems" have "i = length src" by simp
    then show ?thesis
      using "1.prems" by (simp add: appendString_loop.simps [of h src start i dst])
  next
    case lt: True
    define c where "c = src ! i"
    have d: "drop i src = c # drop (Suc i) src"
      unfolding c_def using lt by (rule drop_Suc_nth)
    have one: "take (i + 1 - start) (drop start src) = take (i - start) (drop start src) @ [c]"
      using take_drop_extend [of start i 1 src] "1.prems" lt d by simp
    show ?thesis
    proof (cases "of_char c < (128 :: nat)")
      case ascii: True
      show ?thesis
      proof (cases "copied_raw h c")
        case True
        then have "appendString_loop h src start i dst = appendString_loop h src start (i + 1) dst"
          using lt ascii by (simp add: appendString_loop.simps [of h src start i dst] c_def)
        also have "\<dots> = dst @ take (i + 1 - start) (drop start src) @ json_escape h (drop (i + 1) src)"
          using "1.IH"(1) lt ascii True "1.prems" unfolding c_def by simp
        finally show ?thesis
          using one d ascii True by simp
      next
        case False
        then have "appendString_loop h src start i dst =
            appendString_loop h src (i + 1) (i + 1) (dst @ take (i - start) (drop start src) @ escape_ascii c)"
          using lt ascii by (simp add: appendString_loop.simps [of h src start i dst] c_def)
        also have "\<dots> = (dst @ take (i - start) (drop start src) @ escape_ascii c) @ json_escape h (drop (i + 1) src)"
          using "1.IH"(2) lt ascii False "1.prems" unfolding c_def by simp
        finally show ?thesis
          using d ascii False by simp
      qed
    next
      case nonascii: False
      define n where "n = rune_len (c # drop (Suc i) src)"
      have size: "rune_len (take 4 (drop i src)) = n"
        unfolding n_def d by (simp only: rune_len_take4)
      have n_le: "i + n \<le> length src"
        using rune_len_le [of "c # drop (Suc i) src"] lt unfolding n_def by simp
      show ?thesis
      proof (cases "n = 0")
        case True
        then have "appendString_loop h src start i dst =
            appendString_loop h src (i + 1) (i + 1) (dst @ take (i - start) (drop start src) @ replacement)"
          using lt nonascii size by (simp add: appendString_loop.simps [of h src start i dst] c_def)
        also have "\<dots> = (dst @ take (i - start) (drop start src) @ replacement) @ json_escape h (drop (i + 1) src)"
          using "1.IH"(3) lt nonascii size True "1.prems" unfolding c_def by simp
        finally show ?thesis
          using d nonascii True unfolding n_def by (simp add: Let_def)
      next
        case nz: False
        have tk: "take n (drop i src) = take n (c # drop (Suc i) src)"
          using d by simp
        have dr: "drop (i + n) src = drop n (c # drop (Suc i) src)"
          using d by (metis add.commute drop_drop)
        show ?thesis
        proof (cases "line_sep (take n (drop i src))")
          case True
          then have "appendString_loop h src start i dst =
              appendString_loop h src (i + n) (i + n)
                (dst @ take (i - start) (drop start src) @ escape_line_sep (take n (drop i src)))"
            using lt nonascii size nz by (simp add: appendString_loop.simps [of h src start i dst] c_def)
          also have "\<dots> = (dst @ take (i - start) (drop start src) @ escape_line_sep (take n (drop i src)))
                          @ json_escape h (drop (i + n) src)"
            using "1.IH"(4) lt nonascii size nz True "1.prems" n_le unfolding c_def by simp
          finally show ?thesis
            using d nonascii nz True tk dr unfolding n_def by (simp add: Let_def)
        next
          case False
          then have "appendString_loop h src start i dst = appendString_loop h src start (i + n) dst"
            using lt nonascii size nz by (simp add: appendString_loop.simps [of h src start i dst] c_def)
          also have "\<dots> = dst @ take (i + n - start) (drop start src) @ json_escape h (drop (i + n) src)"
            using "1.IH"(5) lt nonascii size nz False "1.prems" n_le unfolding c_def by simp
          also have "take (i + n - start) (drop start src) = take (i - start) (drop start src) @ take n (drop i src)"
            using "1.prems"(1) n_le by (rule take_drop_extend)
          finally show ?thesis
            using d nonascii nz False tk dr unfolding n_def by (simp add: Let_def)
        qed
      qed
    qed
  qed
qed


lemmas appendString_unfold = appendString_def appendString_loop_eq [of 0 0, simplified]

lemma copied_raw_ascii: "copied_raw h c \<Longrightarrow> of_char c < (128 :: nat)"
  by (auto simp: copied_raw_def html_safe_byte_def safe_byte_def)

lemma json_unescape_raw:
  "bslash \<notin> set xs \<Longrightarrow> json_unescape (xs @ rest) = map_option (\<lambda>r. xs @ r) (json_unescape rest)"
proof (induction xs)
  case Nil
  then show ?case by (cases "json_unescape rest") simp_all
next
  case (Cons a xs)
  then have "a \<noteq> bslash" by auto
  with Cons show ?case by (cases "json_unescape rest") simp_all
qed

lemma hex_val_hex: "k < 16 \<Longrightarrow> hex_val (hex ! k) = Some k"
proof -
  assume "k < 16"
  then have "k \<in> set [0..<16]" by simp
  moreover have "map (\<lambda>k. hex_val (hex ! k)) [0..<16] = map Some [0..<16]"
    by (simp add: upt_rec hex_def hex_val_def)
  ultimately show ?thesis
    by (metis (no_types, lifting) map_eq_conv)
qed

lemma escape_ascii_unescape:
  assumes "of_char c < (128 :: nat)"
  shows "json_unescape (escape_ascii c @ rest) = map_option ((#) c) (json_unescape rest)"
proof -
  let ?b = "of_char c :: nat"
  have hi: "hex_val (hex ! (?b div 16)) = Some (?b div 16)" and lo: "hex_val (hex ! (?b mod 16)) = Some (?b mod 16)"
    using assms by (simp_all add: hex_val_hex)
  have u: "hex4 [CHR ''0'', CHR ''0'', hex ! (?b div 16), hex ! (?b mod 16)] = Some ?b"
    using hi lo by (simp add: hex_val_def)
  have enc: "utf8_encode ?b = [c]"
    using assms by (simp add: utf8_encode_def)
  show ?thesis
    using u enc by (cases "json_unescape rest") (auto simp: escape_ascii_def)
qed


lemma utf8_valid_rune:
  "\<not> ascii c \<Longrightarrow> utf8_valid (c # cs) \<Longrightarrow>
     0 < rune_len (c # cs) \<and> utf8_valid (drop (rune_len (c # cs)) (c # cs))"
  by (cases cs rule: remdups_adj.cases) (auto simp: ascii_def Let_def split: list.splits if_splits)

lemma rune_bytes_not_ascii: "x \<in> set (take (rune_len s) s) \<Longrightarrow> \<not> ascii x"
  by (cases s rule: rune_len.cases)
     (auto simp: Let_def ascii_def utf8_accept_not_ascii [unfolded ascii_def]
        utf8_cont_not_ascii [unfolded ascii_def] split: list.splits if_splits)

lemma line_sep_unescape:
  "line_sep r \<Longrightarrow> json_unescape (escape_line_sep r @ rest) = map_option ((@) r) (json_unescape rest)"
  unfolding line_sep_def
  by (elim disjE; cases "json_unescape rest")
     (simp_all add: escape_line_sep_def hex_def hex_val_def utf8_encode_def char_of_def bit_0)

lemma copied_raw_not_bslash: "copied_raw h c \<Longrightarrow> c \<noteq> bslash"
  by (auto simp: copied_raw_def html_safe_byte_def safe_byte_def)

lemma json_escape_roundtrip_aux: "utf8_valid s \<Longrightarrow> json_unescape (json_escape h s) = Some s"
proof (induction h s rule: json_escape.induct)
  case (1 h)
  then show ?case by simp
next
  case (2 h c cs)
  show ?case
  proof (cases "of_char c < (128 :: nat)")
    case True
    then have a: "ascii c" by (simp add: ascii_def)
    with "2.prems" have v: "utf8_valid cs"
      by (simp add: utf8_valid_ascii_Cons del: utf8_valid.simps)
    with "2.IH"(1) True have ih: "json_unescape (json_escape h cs) = Some cs"
      by simp
    show ?thesis
    proof (cases "copied_raw h c")
      case raw: True
      then have "c \<noteq> bslash" by (rule copied_raw_not_bslash)
      with True raw ih show ?thesis by simp
    next
      case False
      with True ih show ?thesis by (simp add: escape_ascii_unescape)
    qed
  next
    case False
    then have na: "\<not> ascii c" by (simp add: ascii_def)
    define n where "n = rune_len (c # cs)"
    from utf8_valid_rune [OF na "2.prems"] have n0: "n \<noteq> 0" and v: "utf8_valid (drop n (c # cs))"
      unfolding n_def by simp_all
    have ih: "json_unescape (json_escape h (drop n (c # cs))) = Some (drop n (c # cs))"
      using "2.IH"(3) [OF False n_def n0 v] .
    have split: "take n (c # cs) @ drop n (c # cs) = c # cs" by simp
    show ?thesis
    proof (cases "line_sep (take n (c # cs))")
      case True
      with False n0 ih show ?thesis
        using line_sep_unescape [OF True, of "json_escape h (drop n (c # cs))"]
        by (simp add: Let_def n_def [symmetric])
    next
      case ls: False
      have "bslash \<notin> set (take n (c # cs))"
        using rune_bytes_not_ascii [of bslash "c # cs"] unfolding n_def by (auto simp: ascii_def)
      with False n0 ls ih show ?thesis
        using json_unescape_raw [of "take n (c # cs)" "json_escape h (drop n (c # cs))"]
        by (simp add: Let_def n_def [symmetric])
    qed
  qed
qed


lemma json_key: "appendString [] k h = [dquote] @ k @ [dquote]" if "list_all (copied_raw h) k"
proof -
  have "json_escape h k = k"
    using that by (induction k) (auto dest: copied_raw_ascii)
  then show ?thesis
    by (simp add: appendString_unfold)
qed

text \<open>The document written for a response of the handler, whose header maps are empty and
  which is not base64-encoded, with either setting of HTML escaping: the field names are
  copied verbatim and only the body is escaped.\<close>

lemma json_encode_response:
  assumes "Headers r = Map.empty" and "MultiValueHeaders r = Map.empty" and "\<not> IsBase64Encoded r"
  shows "map_option (json_encode h) (json_of_response r) =
     Some (''{'' @ [dquote] @ ''statusCode'' @ [dquote] @ '':'' @ int_decimal (StatusCode r) @ '','' @
           [dquote] @ ''headers'' @ [dquote] @ '':null,'' @
           [dquote] @ ''multiValueHeaders'' @ [dquote] @ '':null,'' @
           [dquote] @ ''body'' @ [dquote] @ '':'' @ [dquote] @ json_escape h (Body r) @ [dquote] @ ''}'')"
  using assms
  by (simp add: json_of_response_def appendString_unfold json_key copied_raw_def
      html_safe_byte_def safe_byte_def)


text \<open>A directory name that is not UTF-8 does not survive the trip: its Latin-1 byte is
  sent as the escape of U+FFFD, and the body the caller decodes differs from the body the
  handler built.\<close>

lemma Handler_payload_latin1:
  "json_unescape (json_escape h (Body (fst (Handler Error ctx request (Inr (''/tmp/caf'' @ [CHR 0xE9])))))) =
     Some (success_prefix @ ''caf'' @ [CHR 0xEF, CHR 0xBF, CHR 0xBD])"
proof -
  have "Body (fst (Handler Error ctx request (Inr (''/tmp/caf'' @ [CHR 0xE9])))) =
        success_prefix @ ''caf'' @ [CHR 0xE9]"
    by (simp add: Handler_eq Base_eq_slash)
  then show ?thesis
    by (simp add: success_prefix_def utf8_accept_def utf8_cont_def copied_raw_def html_safe_byte_def
        safe_byte_def replacement_def line_sep_def hex_val_def utf8_encode_def char_of_def bit_0)
qed

section \<open>Properties of the JSON encoding\<close>

text \<open>C18. The Go loop of \<open>appendString\<close>, which defers copying with its \<open>start\<close> index
  and decodes multi-byte sequences in place, computes exactly the quoted reference
  encoding \<open>json_escape\<close>, for either setting of HTML escaping.\<close>

theorem appendString_refines_json_escape:
  "appendString dst src escapeHTML = dst @ [dquote] @ json_escape escapeHTML src @ [dquote]"
  using appendString_loop_eq [of 0 0 src escapeHTML "dst @ [dquote]"] by (simp add: appendString_def)

end
