(* ===== verification/Scanner.thy ===== *)
theory Scanner
  imports Json
begin

text \<open>The syntax check of \<open>encoding/json\<close> (Go 1.22, \<open>scanner.go\<close>), the first phase of
  \<open>json.Unmarshal\<close>, which \<open>lambda.Start\<close> (src/main.go, line 37) runs on every event
  payload before the request struct is filled. The scanner is a byte-at-a-time state
  machine: its state (\<open>scanner\<close>) is the current step function, the flag \<open>endTop\<close>, the
  stack of enclosing composite values, the first error and the count of bytes read. Each
  Go step function \<open>stateX\<close> is a definition of the same name taking the scanner and
  the byte and returning the updated scanner and the scan code; the step function stored
  in the scanner is the datatype \<open>step_fn\<close>, with a constructor \<open>sX\<close> for each \<open>stateX\<close>.
  \<open>stateBeginStringOrEmpty\<close> writes \<open>s.parseState[n-1]\<close> without checking \<open>n\<close>; its
  model returns \<open>None\<close> there, the index panic, and the scanner is proved never to reach it.
  \<open>popParseState\<close> is only called by \<open>stateEndValue\<close> after its check \<open>n == 0\<close>, so it
  always has a nonempty stack. Go's \<open>bytes\<close> is an \<open>int64\<close> counting the bytes read; it is
  a \<open>nat\<close> here, as no payload comes near \<open>2^63\<close> bytes. Field names carry the prefix
  \<open>sc_\<close> (\<open>se_\<close> for \<open>SyntaxError\<close>) so that they do not capture variable names of
  the theories that import this one.\<close>

section \<open>Scanner state\<close>

datatype scan_code =
  scanContinue | scanBeginLiteral | scanBeginObject | scanObjectKey | scanObjectValue
| scanEndObject | scanBeginArray | scanArrayValue | scanEndArray | scanSkipSpace | scanEnd
| scanError

datatype parse_state = parseObjectKey | parseObjectValue | parseArrayValue

datatype step_fn =
  sBeginValueOrEmpty | sBeginValue | sBeginStringOrEmpty | sBeginString | sEndValue | sEndTop
| sInString | sInStringEsc | sInStringEscU | sInStringEscU1 | sInStringEscU12 | sInStringEscU123
| sNeg | sState1 | sState0 | sDot | sDot0 | sE | sESign | sE0
| sT | sTr | sTru | sF | sFa | sFal | sFals | sN | sNu | sNul | sError

record syntax_error =
  se_msg :: go_string
  se_Offset :: nat

record scanner =
  sc_step :: step_fn
  sc_endTop :: bool
  sc_parseState :: "parse_state list"
  sc_err :: "syntax_error option"
  sc_bytes :: nat

definition maxNestingDepth :: nat where "maxNestingDepth = 10000"

definition isSpace :: "char \<Rightarrow> bool" where
  "isSpace c \<longleftrightarrow> c = CHR '' '' \<or> c = CHR 0x09 \<or> c = CHR 0x0D \<or> c = CHR 0x0A"

definition isDigit :: "char \<Rightarrow> bool" where
  "isDigit c \<longleftrightarrow> (48 :: nat) \<le> of_char c \<and> of_char c \<le> (57 :: nat)"

definition isHex :: "char \<Rightarrow> bool" where
  "isHex c \<longleftrightarrow> isDigit c \<or> ((97 :: nat) \<le> of_char c \<and> of_char c \<le> (102 :: nat))
     \<or> ((65 :: nat) \<le> of_char c \<and> of_char c \<le> (70 :: nat))"

abbreviation squote :: char where "squote \<equiv> CHR 0x27"

text \<open>\<open>strconv.Quote(string(c))\<close> without its enclosing quotes: the byte is taken as the
  rune U+00XX; printable runes (ASCII 0x20--0x7E, Latin-1 0xA1--0xFF but the soft hyphen
  0xAD) are written in UTF-8, the C escapes by name, other ASCII controls as \<open>\xXX\<close> and
  the C1 controls, the no-break space and the soft hyphen as \<open>\u00XX\<close>.\<close>

definition quote_rune_body :: "char \<Rightarrow> go_string" where
  "quote_rune_body c =
     (let r = of_char c :: nat in
      if c = dquote \<or> c = bslash then [bslash, c]
      else if (0x20 \<le> r \<and> r \<le> 0x7E) \<or> (0xA1 \<le> r \<and> r \<noteq> 0xAD) then utf8_encode r
      else if r = 7 then [bslash, CHR ''a'']
      else if r = 8 then [bslash, CHR ''b'']
      else if r = 12 then [bslash, CHR ''f'']
      else if r = 10 then [bslash, CHR ''n'']
      else if r = 13 then [bslash, CHR ''r'']
      else if r = 9 then [bslash, CHR ''t'']
      else if r = 11 then [bslash, CHR ''v'']
      else if r < 0x20 \<or> r = 0x7F then [bslash, CHR ''x'', hex ! (r div 16), hex ! (r mod 16)]
      else [bslash, CHR ''u'', CHR ''0'', CHR ''0'', hex ! (r div 16), hex ! (r mod 16)])"

definition quoteChar :: "char \<Rightarrow> go_string" where
  "quoteChar c =
     (if c = squote then [squote, bslash, squote, squote]
      else if c = dquote then [squote, dquote, squote]
      else [squote] @ quote_rune_body c @ [squote])"

definition scan_error :: "scanner \<Rightarrow> char \<Rightarrow> go_string \<Rightarrow> scanner \<times> scan_code" where
  "scan_error s c context =
     (s\<lparr>sc_step := sError,
        sc_err := Some \<lparr>se_msg = ''invalid character '' @ quoteChar c @ '' '' @ context,
                        se_Offset = sc_bytes s\<rparr>\<rparr>, scanError)"

definition pushParseState ::
    "scanner \<Rightarrow> char \<Rightarrow> parse_state \<Rightarrow> scan_code \<Rightarrow> scanner \<times> scan_code" where
  "pushParseState s c newParseState successState =
     (let s' = s\<lparr>sc_parseState := sc_parseState s @ [newParseState]\<rparr> in
      if length (sc_parseState s') \<le> maxNestingDepth then (s', successState)
      else scan_error s' c ''exceeded max depth'')"

definition popParseState :: "scanner \<Rightarrow> scanner" where
  "popParseState s =
     (let n = length (sc_parseState s) - 1;
          s' = s\<lparr>sc_parseState := take n (sc_parseState s)\<rparr> in
      if n = 0 then s'\<lparr>sc_step := sEndTop, sc_endTop := True\<rparr> else s'\<lparr>sc_step := sEndValue\<rparr>)"

section \<open>Step functions\<close>

definition stateEndTop :: "scanner \<Rightarrow> char \<Rightarrow> scanner \<times> scan_code" where
  "stateEndTop s c =
     (if \<not> isSpace c then (fst (scan_error s c ''after top-level value''), scanEnd) else (s, scanEnd))"

definition set_top :: "scanner \<Rightarrow> parse_state \<Rightarrow> scanner" where
  "set_top s p = s\<lparr>sc_parseState := butlast (sc_parseState s) @ [p]\<rparr>"

definition stateEndValue :: "scanner \<Rightarrow> char \<Rightarrow> scanner \<times> scan_code" where
  "stateEndValue s c =
     (if sc_parseState s = [] then stateEndTop (s\<lparr>sc_step := sEndTop, sc_endTop := True\<rparr>) c
      else if isSpace c then (s\<lparr>sc_step := sEndValue\<rparr>, scanSkipSpace)
      else (case last (sc_parseState s) of
              parseObjectKey \<Rightarrow>
                if c = CHR '':'' then ((set_top s parseObjectValue)\<lparr>sc_step := sBeginValue\<rparr>, scanObjectKey)
                else scan_error s c ''after object key''
            | parseObjectValue \<Rightarrow>
                if c = CHR '','' then ((set_top s parseObjectKey)\<lparr>sc_step := sBeginString\<rparr>, scanObjectValue)
                else if c = CHR ''}'' then (popParseState s, scanEndObject)
                else scan_error s c ''after object key:value pair''
            | parseArrayValue \<Rightarrow>
                if c = CHR '','' then (s\<lparr>sc_step := sBeginValue\<rparr>, scanArrayValue)
                else if c = CHR '']'' then (popParseState s, scanEndArray)
                else scan_error s c ''after array element''))"

definition stateBeginValue :: "scanner \<Rightarrow> char \<Rightarrow> scanner \<times> scan_code" where
  "stateBeginValue s c =
     (if isSpace c then (s, scanSkipSpace)
      else if c = CHR ''{'' then
        pushParseState (s\<lparr>sc_step := sBeginStringOrEmpty\<rparr>) c parseObjectKey scanBeginObject
      else if c = CHR ''['' then
        pushParseState (s\<lparr>sc_step := sBeginValueOrEmpty\<rparr>) c parseArrayValue scanBeginArray
      else if c = dquote then (s\<lparr>sc_step := sInString\<rparr>, scanBeginLiteral)
      else if c = CHR ''-'' then (s\<lparr>sc_step := sNeg\<rparr>, scanBeginLiteral)
      else if c = CHR ''0'' then (s\<lparr>sc_step := sState0\<rparr>, scanBeginLiteral)
      else if c = CHR ''t'' then (s\<lparr>sc_step := sT\<rparr>, scanBeginLiteral)
      else if c = CHR ''f'' then (s\<lparr>sc_step := sF\<rparr>, scanBeginLiteral)
      else if c = CHR ''n'' then (s\<lparr>sc_step := sN\<rparr>, scanBeginLiteral)
      else if (49 :: nat) \<le> of_char c \<and> of_char c \<le> (57 :: nat) then (s\<lparr>sc_step := sState1\<rparr>, scanBeginLiteral)
      else scan_error s c ''looking for beginning of value'')"

definition stateBeginValueOrEmpty :: "scanner \<Rightarrow> char \<Rightarrow> scanner \<times> scan_code" where
  "stateBeginValueOrEmpty s c =
     (if isSpace c then (s, scanSkipSpace)
      else if c = CHR '']'' then stateEndValue s c
      else stateBeginValue s c)"

definition stateBeginString :: "scanner \<Rightarrow> char \<Rightarrow> scanner \<times> scan_code" where
  "stateBeginString s c =
     (if isSpace c then (s, scanSkipSpace)
      else if c = dquote then (s\<lparr>sc_step := sInString\<rparr>, scanBeginLiteral)
      else scan_error s c ''looking for beginning of object key string'')"

definition stateBeginStringOrEmpty :: "scanner \<Rightarrow> char \<Rightarrow> (scanner \<times> scan_code) option" where
  "stateBeginStringOrEmpty s c =
     (if isSpace c then Some (s, scanSkipSpace)
      else if c = CHR ''}'' then
        (if sc_parseState s = [] then None
         else Some (stateEndValue (set_top s parseObjectValue) c))
      else Some (stateBeginString s c))"

definition stateInString :: "scanner \<Rightarrow> char \<Rightarrow> scanner \<times> scan_code" where
  "stateInString s c =
     (if c = dquote then (s\<lparr>sc_step := sEndValue\<rparr>, scanContinue)
      else if c = bslash then (s\<lparr>sc_step := sInStringEsc\<rparr>, scanContinue)
      else if of_char c < (0x20 :: nat) then scan_error s c ''in string literal''
      else (s, scanContinue))"

definition stateInStringEsc :: "scanner \<Rightarrow> char \<Rightarrow> scanner \<times> scan_code" where
  "stateInStringEsc s c =
     (if c \<in> set ''bfnrt/'' \<or> c = bslash \<or> c = dquote then (s\<lparr>sc_step := sInString\<rparr>, scanContinue)
      else if c = CHR ''u'' then (s\<lparr>sc_step := sInStringEscU\<rparr>, scanContinue)
      else scan_error s c ''in string escape code'')"

definition hex_escape_error :: go_string where
  "hex_escape_error = ''in '' @ [bslash] @ ''u hexadecimal character escape''"

definition stateInStringEscU :: "scanner \<Rightarrow> char \<Rightarrow> scanner \<times> scan_code" where
  "stateInStringEscU s c =
     (if isHex c then (s\<lparr>sc_step := sInStringEscU1\<rparr>, scanContinue)
      else scan_error s c hex_escape_error)"

definition stateInStringEscU1 :: "scanner \<Rightarrow> char \<Rightarrow> scanner \<times> scan_code" where
  "stateInStringEscU1 s c =
     (if isHex c then (s\<lparr>sc_step := sInStringEscU12\<rparr>, scanContinue)
      else scan_error s c hex_escape_error)"

definition stateInStringEscU12 :: "scanner \<Rightarrow> char \<Rightarrow> scanner \<times> scan_code" where
  "stateInStringEscU12 s c =
     (if isHex c then (s\<lparr>sc_step := sInStringEscU123\<rparr>, scanContinue)
      else scan_error s c hex_escape_error)"

definition stateInStringEscU123 :: "scanner \<Rightarrow> char \<Rightarrow> scanner \<times> scan_code" where
  "stateInStringEscU123 s c =
     (if isHex c then (s\<lparr>sc_step := sInString\<rparr>, scanContinue)
      else scan_error s c hex_escape_error)"

definition stateNeg :: "scanner \<Rightarrow> char \<Rightarrow> scanner \<times> scan_code" where
  "stateNeg s c =
     (if c = CHR ''0'' then (s\<lparr>sc_step := sState0\<rparr>, scanContinue)
      else if (49 :: nat) \<le> of_char c \<and> of_char c \<le> (57 :: nat) then (s\<lparr>sc_step := sState1\<rparr>, scanContinue)
      else scan_error s c ''in numeric literal'')"

definition state0 :: "scanner \<Rightarrow> char \<Rightarrow> scanner \<times> scan_code" where
  "state0 s c =
     (if c = CHR ''.'' then (s\<lparr>sc_step := sDot\<rparr>, scanContinue)
      else if c = CHR ''e'' \<or> c = CHR ''E'' then (s\<lparr>sc_step := sE\<rparr>, scanContinue)
      else stateEndValue s c)"

definition state1 :: "scanner \<Rightarrow> char \<Rightarrow> scanner \<times> scan_code" where
  "state1 s c = (if isDigit c then (s\<lparr>sc_step := sState1\<rparr>, scanContinue) else state0 s c)"

definition stateDot :: "scanner \<Rightarrow> char \<Rightarrow> scanner \<times> scan_code" where
  "stateDot s c =
     (if isDigit c then (s\<lparr>sc_step := sDot0\<rparr>, scanContinue)
      else scan_error s c ''after decimal point in numeric literal'')"

definition stateDot0 :: "scanner \<Rightarrow> char \<Rightarrow> scanner \<times> scan_code" where
  "stateDot0 s c =
     (if isDigit c then (s, scanContinue)
      else if c = CHR ''e'' \<or> c = CHR ''E'' then (s\<lparr>sc_step := sE\<rparr>, scanContinue)
      else stateEndValue s c)"

definition stateESign :: "scanner \<Rightarrow> char \<Rightarrow> scanner \<times> scan_code" where
  "stateESign s c =
     (if isDigit c then (s\<lparr>sc_step := sE0\<rparr>, scanContinue)
      else scan_error s c ''in exponent of numeric literal'')"

definition stateE :: "scanner \<Rightarrow> char \<Rightarrow> scanner \<times> scan_code" where
  "stateE s c =
     (if c = CHR ''+'' \<or> c = CHR ''-'' then (s\<lparr>sc_step := sESign\<rparr>, scanContinue)
      else stateESign s c)"

definition stateE0 :: "scanner \<Rightarrow> char \<Rightarrow> scanner \<times> scan_code" where
  "stateE0 s c = (if isDigit c then (s, scanContinue) else stateEndValue s c)"

text \<open>The literals \<open>true\<close>, \<open>false\<close> and \<open>null\<close>, one byte per state: \<open>literal_step\<close>
  is the common shape of \<open>stateT\<close> \ldots \<open>stateNul\<close>, each of which expects one byte and
  names it in its error.\<close>

definition literal_step ::
    "go_string \<Rightarrow> char \<Rightarrow> step_fn \<Rightarrow> scanner \<Rightarrow> char \<Rightarrow> scanner \<times> scan_code" where
  "literal_step lit expected next s c =
     (if c = expected then (s\<lparr>sc_step := next\<rparr>, scanContinue)
      else scan_error s c (''in literal '' @ lit @ '' (expecting '' @ [squote, expected, squote] @ '')''))"

definition stateT :: "scanner \<Rightarrow> char \<Rightarrow> scanner \<times> scan_code" where
  "stateT = literal_step ''true'' (CHR ''r'') sTr"
definition stateTr :: "scanner \<Rightarrow> char \<Rightarrow> scanner \<times> scan_code" where
  "stateTr = literal_step ''true'' (CHR ''u'') sTru"
definition stateTru :: "scanner \<Rightarrow> char \<Rightarrow> scanner \<times> scan_code" where
  "stateTru = literal_step ''true'' (CHR ''e'') sEndValue"
definition stateF :: "scanner \<Rightarrow> char \<Rightarrow> scanner \<times> scan_code" where
  "stateF = literal_step ''false'' (CHR ''a'') sFa"
definition stateFa :: "scanner \<Rightarrow> char \<Rightarrow> scanner \<times> scan_code" where
  "stateFa = literal_step ''false'' (CHR ''l'') sFal"
definition stateFal :: "scanner \<Rightarrow> char \<Rightarrow> scanner \<times> scan_code" where
  "stateFal = literal_step ''false'' (CHR ''s'') sFals"
definition stateFals :: "scanner \<Rightarrow> char \<Rightarrow> scanner \<times> scan_code" where
  "stateFals = literal_step ''false'' (CHR ''e'') sEndValue"
definition stateN :: "scanner \<Rightarrow> char \<Rightarrow> scanner \<times> scan_code" where
  "stateN = literal_step ''null'' (CHR ''u'') sNu"
definition stateNu :: "scanner \<Rightarrow> char \<Rightarrow> scanner \<times> scan_code" where
  "stateNu = literal_step ''null'' (CHR ''l'') sNul"
definition stateNul :: "scanner \<Rightarrow> char \<Rightarrow> scanner \<times> scan_code" where
  "stateNul = literal_step ''null'' (CHR ''l'') sEndValue"

definition stateError :: "scanner \<Rightarrow> char \<Rightarrow> scanner \<times> scan_code" where
  "stateError s c = (s, scanError)"

section \<open>Driving the scanner\<close>

text \<open>\<open>s.step(s, c)\<close>: the call through the stored step function.\<close>

definition scan_step :: "scanner \<Rightarrow> char \<Rightarrow> (scanner \<times> scan_code) option" where
  "scan_step s c =
     (case sc_step s of
        sBeginValueOrEmpty \<Rightarrow> Some (stateBeginValueOrEmpty s c)
      | sBeginValue \<Rightarrow> Some (stateBeginValue s c)
      | sBeginStringOrEmpty \<Rightarrow> stateBeginStringOrEmpty s c
      | sBeginString \<Rightarrow> Some (stateBeginString s c)
      | sEndValue \<Rightarrow> Some (stateEndValue s c)
      | sEndTop \<Rightarrow> Some (stateEndTop s c)
      | sInString \<Rightarrow> Some (stateInString s c)
      | sInStringEsc \<Rightarrow> Some (stateInStringEsc s c)
      | sInStringEscU \<Rightarrow> Some (stateInStringEscU s c)
      | sInStringEscU1 \<Rightarrow> Some (stateInStringEscU1 s c)
      | sInStringEscU12 \<Rightarrow> Some (stateInStringEscU12 s c)
      | sInStringEscU123 \<Rightarrow> Some (stateInStringEscU123 s c)
      | sNeg \<Rightarrow> Some (stateNeg s c)
      | sState1 \<Rightarrow> Some (state1 s c)
      | sState0 \<Rightarrow> Some (state0 s c)
      | sDot \<Rightarrow> Some (stateDot s c)
      | sDot0 \<Rightarrow> Some (stateDot0 s c)
      | sE \<Rightarrow> Some (stateE s c)
      | sESign \<Rightarrow> Some (stateESign s c)
      | sE0 \<Rightarrow> Some (stateE0 s c)
      | sT \<Rightarrow> Some (stateT s c)
      | sTr \<Rightarrow> Some (stateTr s c)
      | sTru \<Rightarrow> Some (stateTru s c)
      | sF \<Rightarrow> Some (stateF s c)
      | sFa \<Rightarrow> Some (stateFa s c)
      | sFal \<Rightarrow> Some (stateFal s c)
      | sFals \<Rightarrow> Some (stateFals s c)
      | sN \<Rightarrow> Some (stateN s c)
      | sNu \<Rightarrow> Some (stateNu s c)
      | sNul \<Rightarrow> Some (stateNul s c)
      | sError \<Rightarrow> Some (stateError s c))"

text \<open>\<open>reset\<close> keeps the byte count; \<open>checkValid\<close> starts from a zero scanner.\<close>

definition scan_reset :: "scanner \<Rightarrow> scanner" where
  "scan_reset s = s\<lparr>sc_step := sBeginValue, sc_parseState := [], sc_err := None, sc_endTop := False\<rparr>"

definition zero_scanner :: scanner where
  "zero_scanner = \<lparr>sc_step = sBeginValue, sc_endTop = False, sc_parseState = [], sc_err = None, sc_bytes = 0\<rparr>"

definition scan_eof :: "scanner \<Rightarrow> (scanner \<times> scan_code) option" where
  "scan_eof s =
     (if sc_err s \<noteq> None then Some (s, scanError)
      else if sc_endTop s then Some (s, scanEnd)
      else (case scan_step s (CHR '' '') of
              None \<Rightarrow> None
            | Some (s1, _) \<Rightarrow>
                if sc_endTop s1 then Some (s1, scanEnd)
                else if sc_err s1 = None then
                  Some (s1\<lparr>sc_err := Some \<lparr>se_msg = ''unexpected end of JSON input'',
                                             se_Offset = sc_bytes s1\<rparr>\<rparr>, scanError)
                else Some (s1, scanError)))"

text \<open>The loop of \<open>checkValid\<close>: count the byte, step, and stop at the first \<open>scanError\<close>.
  The flag of the result says whether the loop stopped early.\<close>

fun checkValid_loop :: "scanner \<Rightarrow> go_string \<Rightarrow> (scanner \<times> bool) option" where
  "checkValid_loop s [] = Some (s, False)"
| "checkValid_loop s (c # cs) =
     (case scan_step (s\<lparr>sc_bytes := Suc (sc_bytes s)\<rparr>) c of
        None \<Rightarrow> None
      | Some (s', code) \<Rightarrow> if code = scanError then Some (s', True) else checkValid_loop s' cs)"

text \<open>\<open>checkValid(data, scan)\<close>: \<open>Some None\<close> is a valid document, \<open>Some (Some e)\<close> the
  syntax error \<open>e\<close>, \<open>None\<close> a panic.\<close>

definition checkValid :: "go_string \<Rightarrow> syntax_error option option" where
  "checkValid data =
     (case checkValid_loop (scan_reset zero_scanner) data of
        None \<Rightarrow> None
      | Some (s, True) \<Rightarrow> Some (sc_err s)
      | Some (s, False) \<Rightarrow>
          (case scan_eof s of
             None \<Rightarrow> None
           | Some (s', code) \<Rightarrow> Some (if code = scanError then sc_err s' else None)))"

text \<open>The reading loop of \<open>json.Decoder\<close> (\<open>Decode\<close> calls \<open>readValue\<close>, \<open>stream.go\<close>) on a
  payload that is all in its buffer: it scans with the same scanner and stops at the end of
  the first value, at a byte the scanner answers with \<open>scanEnd\<close> (the byte after a number
  or literal, not consumed) or at the bracket that closes a top-level object or array, after
  asking \<open>stateEndValue\<close> whether a space would end the value. A scanner error is returned
  as it is. At the end of the input a space is stepped: the value is then complete, or the
  error is \<open>io.ErrUnexpectedEOF\<close> if the input holds a byte other than white space and
  \<open>io.EOF\<close> otherwise. The result \<open>Inr n\<close> is the length of the value read.\<close>

datatype decode_error = SyntaxErr syntax_error | ErrUnexpectedEOF | EOF

fun readValue_scan :: "scanner \<Rightarrow> go_string \<Rightarrow> nat \<Rightarrow> (scanner \<times> (decode_error + nat) option) option" where
  "readValue_scan s [] n = Some (s, None)"
| "readValue_scan s (c # cs) n =
     (case scan_step (s\<lparr>sc_bytes := Suc (sc_bytes s)\<rparr>) c of
        None \<Rightarrow> None
      | Some (s', code) \<Rightarrow>
          if code = scanEnd then Some (s'\<lparr>sc_bytes := sc_bytes s' - 1\<rparr>, Some (Inr n))
          else if code = scanEndObject \<or> code = scanEndArray then
            (case stateEndValue s' (CHR '' '') of
               (s'', code') \<Rightarrow> if code' = scanEnd then Some (s'', Some (Inr (Suc n)))
                              else readValue_scan s'' cs (Suc n))
          else if code = scanError then Some (s', Some (Inl (SyntaxErr (the (sc_err s')))))
          else readValue_scan s' cs (Suc n))"

definition nonSpace :: "go_string \<Rightarrow> bool" where
  "nonSpace b \<longleftrightarrow> (\<exists>c \<in> set b. \<not> isSpace c)"

definition Decoder_readValue :: "go_string \<Rightarrow> (decode_error + nat) option" where
  "Decoder_readValue data =
     (case readValue_scan (scan_reset zero_scanner) data 0 of
        None \<Rightarrow> None
      | Some (s, Some r) \<Rightarrow> Some r
      | Some (s, None) \<Rightarrow>
          (case scan_step s (CHR '' '') of
             None \<Rightarrow> None
           | Some (s', code) \<Rightarrow>
               if code = scanEnd then Some (Inr (length data))
               else if nonSpace data then Some (Inl ErrUnexpectedEOF)
               else Some (Inl EOF)))"

section \<open>Proof vocabulary\<close>

text \<open>Predicates and measures used by the proofs below; they are not code. \<open>plain_byte\<close>
  is a string byte the scanner passes over, \<open>json_depth\<close> the nesting depth of a JSON
  value, \<open>nested_end\<close> the step function left after a value inside an object, \<open>scan_inv\<close>
  the invariant that keeps \<open>stateBeginStringOrEmpty\<close> off an empty stack, and
  \<open>scan_done\<close> a scanner that has read one complete top-level value.\<close>

definition plain_byte :: "char \<Rightarrow> bool" where
  "plain_byte c \<longleftrightarrow> (0x20 :: nat) \<le> of_char c \<and> c \<noteq> dquote \<and> c \<noteq> bslash"

fun json_depth :: "json \<Rightarrow> nat" where
  "json_depth (JObject fs) = Suc (foldr max (map (\<lambda>(k, v). json_depth v) fs) 0)"
| "json_depth _ = 0"

fun nested_end :: "json \<Rightarrow> step_fn" where
  "nested_end (JNumber n) = (if n = 0 then sState0 else sState1)"
| "nested_end _ = sEndValue"

definition scan_inv :: "scanner \<Rightarrow> bool" where
  "scan_inv s \<longleftrightarrow> (sc_step s = sBeginStringOrEmpty \<longrightarrow> sc_parseState s \<noteq> [])"

definition scan_done :: "scanner \<Rightarrow> bool" where
  "scan_done s \<longleftrightarrow> sc_err s = None \<and> sc_parseState s = [] \<and>
     (sc_endTop s \<and> sc_step s = sEndTop \<or> sc_step s \<in> {sEndValue, sState0, sState1})"


text \<open>\<open>quiet_run\<close> runs the scanner over bytes that neither end nor break the top-level
  value: no byte may produce \<open>scanEnd\<close> or \<open>scanError\<close>, or close a composite value
  that leaves the stack empty. Over such bytes the loops of \<open>checkValid\<close> and of
  \<open>Decoder.readValue\<close> take the same steps, so the runs over the encoder's output are
  proved once, for \<open>quiet_run\<close>.\<close>

fun quiet_run :: "scanner \<Rightarrow> go_string \<Rightarrow> scanner option" where
  "quiet_run s [] = Some s"
| "quiet_run s (c # cs) =
     (case scan_step (s\<lparr>sc_bytes := Suc (sc_bytes s)\<rparr>) c of
        None \<Rightarrow> None
      | Some (s', code) \<Rightarrow>
          if code = scanEnd \<or> code = scanError \<or>
             ((code = scanEndObject \<or> code = scanEndArray) \<and> sc_parseState s' = [])
          then None else quiet_run s' cs)"

section \<open>Running the scanner\<close>

lemmas state_defs = stateEndTop_def stateEndValue_def stateBeginValue_def stateBeginValueOrEmpty_def
  stateBeginString_def stateBeginStringOrEmpty_def stateInString_def stateInStringEsc_def
  stateInStringEscU_def stateInStringEscU1_def stateInStringEscU12_def stateInStringEscU123_def
  stateNeg_def state0_def state1_def stateDot_def stateDot0_def stateE_def stateESign_def
  stateE0_def stateT_def stateTr_def stateTru_def stateF_def stateFa_def stateFal_def
  stateFals_def stateN_def stateNu_def stateNul_def stateError_def literal_step_def

lemma checkValid_loop_append:
  "checkValid_loop s (a @ b) =
     (case checkValid_loop s a of
        None \<Rightarrow> None
      | Some (s', True) \<Rightarrow> Some (s', True)
      | Some (s', False) \<Rightarrow> checkValid_loop s' b)"
  by (induction a arbitrary: s) (auto split: option.split prod.split)

lemma checkValid_loop_chain:
  "checkValid_loop s a = Some (s', False) \<Longrightarrow> checkValid_loop s (a @ b) = checkValid_loop s' b"
  by (simp add: checkValid_loop_append)

lemma quiet_run_append:
  "quiet_run s (a @ b) = (case quiet_run s a of None \<Rightarrow> None | Some t \<Rightarrow> quiet_run t b)"
  by (induction a arbitrary: s) (auto split: option.split prod.split)

lemma quiet_chain: "quiet_run s a = Some t \<Longrightarrow> quiet_run s (a @ b) = quiet_run t b"
  by (simp add: quiet_run_append)

lemma quiet_checkValid: "quiet_run s x = Some t \<Longrightarrow> checkValid_loop s (x @ y) = checkValid_loop t y"
  by (induction x arbitrary: s) (auto split: option.splits prod.splits if_splits)

text \<open>A step that closes a composite value inside another one leaves the scanner in
  \<open>stateEndValue\<close>, where \<open>Decoder.readValue\<close>'s extra call \<open>stateEndValue(s, ' ')\<close>
  changes nothing.\<close>

lemma scan_close_nested:
  assumes "scan_step s c = Some (s', code)" "code = scanEndObject \<or> code = scanEndArray"
    "sc_parseState s' \<noteq> []"
  shows "stateEndValue s' (CHR '' '') = (s', scanSkipSpace)"
proof -
  have "sc_step s' = sEndValue"
    using assms
    by (cases "sc_step s")
       (auto simp: scan_step_def state_defs pushParseState_def popParseState_def scan_error_def set_top_def
          Let_def split: if_splits parse_state.splits)
  then show ?thesis
    using assms(3) by (cases s') (simp add: stateEndValue_def isSpace_def)
qed

lemma quiet_readValue:
  "quiet_run s x = Some t \<Longrightarrow> readValue_scan s (x @ y) n = readValue_scan t y (n + length x)"
proof (induction x arbitrary: s n)
  case Nil
  then show ?case by simp
next
  case (Cons c cs)
  obtain s' code where step: "scan_step (s\<lparr>sc_bytes := Suc (sc_bytes s)\<rparr>) c = Some (s', code)"
    and quiet: "\<not> (code = scanEnd \<or> code = scanError \<or>
                   ((code = scanEndObject \<or> code = scanEndArray) \<and> sc_parseState s' = []))"
    and rest: "quiet_run s' cs = Some t"
    using Cons.prems by (auto split: option.splits prod.splits if_splits)
  show ?case
  proof (cases "code = scanEndObject \<or> code = scanEndArray")
    case True
    then have "stateEndValue s' (CHR '' '') = (s', scanSkipSpace)"
      using scan_close_nested [OF step] quiet by blast
    then show ?thesis
      using step quiet True Cons.IH [OF rest, of "Suc n"] by auto
  next
    case False
    then show ?thesis
      using step quiet Cons.IH [OF rest, of "Suc n"] by auto
  qed
qed

lemma scan_plain_bytes:
  assumes "sc_step s = sInString" "list_all plain_byte x"
  shows "quiet_run s x = Some (s\<lparr>sc_bytes := sc_bytes s + length x\<rparr>)"
  using assms
  by (induction x arbitrary: s)
     (auto simp: scan_step_def stateInString_def plain_byte_def not_less)

lemma hex_isHex: "k < 16 \<Longrightarrow> isHex (hex ! k)"
proof -
  assume "k < 16"
  moreover have "length hex = 16"
    by (simp add: hex_def)
  ultimately have "hex ! k \<in> set hex"
    by (metis nth_mem)
  moreover have "\<forall>c \<in> set hex. isHex c"
    by (simp add: hex_def isHex_def isDigit_def)
  ultimately show ?thesis
    by blast
qed


lemma escape_hex_digits: "isHex (hex ! (of_char c div 16))" "isHex (hex ! (of_char c mod 16))"
proof -
  have "of_char c < (256 :: nat)"
    by (rule nat_of_char_less_256)
  then show "isHex (hex ! (of_char c div 16))" "isHex (hex ! (of_char c mod 16))"
    by (simp_all add: hex_isHex less_mult_imp_div_less)
qed

lemma isHex_literals [simp]:
  "isHex (CHR ''0'')" "isHex (CHR ''2'')" "isHex (CHR ''f'')" "isHex (CHR ''d'')"
  by (simp_all add: isHex_def isDigit_def)

lemma scan_escape_ascii:
  assumes "sc_step s = sInString"
  shows "quiet_run s (escape_ascii c) =
           Some (s\<lparr>sc_bytes := sc_bytes s + length (escape_ascii c)\<rparr>)"
  using assms escape_hex_digits [of c]
  by (simp add: escape_ascii_def scan_step_def stateInString_def stateInStringEsc_def
      stateInStringEscU_def stateInStringEscU1_def stateInStringEscU12_def stateInStringEscU123_def)


section \<open>What the encoder writes passes the check\<close>

text \<open>Every unit the string encoder writes leaves the scanner inside the string.\<close>

lemma plain_byte_non_ascii: "\<not> ascii x \<Longrightarrow> plain_byte x"
  unfolding plain_byte_def ascii_def by auto

lemma scan_string_units:
  assumes "sc_step s = sInString"
  shows scan_copied: "copied_raw h c \<Longrightarrow> quiet_run s [c] = Some (s\<lparr>sc_bytes := Suc (sc_bytes s)\<rparr>)"
    and scan_replacement:
      "quiet_run s replacement = Some (s\<lparr>sc_bytes := sc_bytes s + length replacement\<rparr>)"
    and scan_escape_line_sep:
      "quiet_run s (escape_line_sep r) = Some (s\<lparr>sc_bytes := sc_bytes s + length (escape_line_sep r)\<rparr>)"
    and scan_rune_bytes:
      "quiet_run s (take (rune_len xs) xs) =
         Some (s\<lparr>sc_bytes := sc_bytes s + length (take (rune_len xs) xs)\<rparr>)"
proof -
  show "copied_raw h c \<Longrightarrow> quiet_run s [c] = Some (s\<lparr>sc_bytes := Suc (sc_bytes s)\<rparr>)"
    using scan_plain_bytes [OF assms, of "[c]"]
    by (auto simp: plain_byte_def copied_raw_def html_safe_byte_def safe_byte_def)
  show "quiet_run s replacement = Some (s\<lparr>sc_bytes := sc_bytes s + length replacement\<rparr>)"
    using assms by (simp add: replacement_def scan_step_def stateInString_def stateInStringEsc_def
      stateInStringEscU_def stateInStringEscU1_def stateInStringEscU12_def stateInStringEscU123_def)
  have "isHex (hex ! (of_char (last r) mod 16))"
    by (simp add: hex_isHex)
  then show "quiet_run s (escape_line_sep r) =
      Some (s\<lparr>sc_bytes := sc_bytes s + length (escape_line_sep r)\<rparr>)"
    using assms by (simp add: escape_line_sep_def scan_step_def stateInString_def stateInStringEsc_def
      stateInStringEscU_def stateInStringEscU1_def stateInStringEscU12_def stateInStringEscU123_def)
  have "list_all plain_byte (take (rune_len xs) xs)"
    using rune_bytes_not_ascii [of _ xs] plain_byte_non_ascii
    by (auto simp: list_all_iff)
  then show "quiet_run s (take (rune_len xs) xs) =
      Some (s\<lparr>sc_bytes := sc_bytes s + length (take (rune_len xs) xs)\<rparr>)"
    by (rule scan_plain_bytes [OF assms])
qed

lemma scan_json_escape:
  "sc_step s = sInString \<Longrightarrow>
   quiet_run s (json_escape h str) =
     Some (s\<lparr>sc_bytes := sc_bytes s + length (json_escape h str)\<rparr>)"
proof (induction h str arbitrary: s rule: json_escape.induct)
  case (1 h)
  then show ?case by simp
next
  case (2 h c cs)
  define n where "n = rune_len (c # cs)"
  show ?case
  proof (cases "of_char c < (128 :: nat)")
    case True
    define u where "u = (if copied_raw h c then [c] else escape_ascii c)"
    have "quiet_run s u = Some (s\<lparr>sc_bytes := sc_bytes s + length u\<rparr>)"
      using scan_copied [OF "2.prems"] scan_escape_ascii [OF "2.prems"] unfolding u_def by simp
    with True "2.IH"(1) [of "s\<lparr>sc_bytes := sc_bytes s + length u\<rparr>"] "2.prems" show ?thesis
      by (simp add: u_def [symmetric] quiet_chain)
  next
    case False
    show ?thesis
    proof (cases "n = 0")
      case True
      with False "2.IH"(2) [OF False n_def True, of "s\<lparr>sc_bytes := sc_bytes s + length replacement\<rparr>"]
        scan_replacement [OF "2.prems"] "2.prems"
      show ?thesis
        by (simp add: n_def [symmetric] quiet_chain)
    next
      case nz: False
      define r where "r = take n (c # cs)"
      define u where "u = (if line_sep r then escape_line_sep r else r)"
      have "quiet_run s u = Some (s\<lparr>sc_bytes := sc_bytes s + length u\<rparr>)"
        using scan_escape_line_sep [OF "2.prems", of r] scan_rune_bytes [OF "2.prems", of "c # cs"]
        unfolding u_def r_def n_def by simp
      moreover have "json_escape h (c # cs) = u @ json_escape h (drop n (c # cs))"
        using False nz by (simp add: u_def r_def n_def Let_def)
      ultimately show ?thesis
        using "2.IH"(3) [OF False n_def nz, of "s\<lparr>sc_bytes := sc_bytes s + length u\<rparr>"] "2.prems"
        by (simp add: quiet_chain)
    qed
  qed
qed


section \<open>Numbers and literals\<close>

lemma digit_char_facts:
  "(m :: nat) < 10 \<Longrightarrow> isDigit (char_of (48 + m))"
  "isDigit (char_of (48 + (m :: nat) mod 10))"
  "(m :: nat) < 10 \<Longrightarrow> 0 < m \<Longrightarrow> (49 :: nat) \<le> of_char (char_of (48 + m))"
  by (simp_all add: isDigit_def)
lemma dec_digits_shape:
  "\<exists>d ds. dec_digits m = d # ds \<and> list_all isDigit ds \<and> isDigit d \<and> (0 < m \<longrightarrow> (49 :: nat) \<le> of_char d)"
proof (induction m rule: dec_digits.induct)
  case (1 m)
  show ?case
  proof (cases "m < 10")
    case True
    then show ?thesis
      using digit_char_facts(1,3) [of m] by (simp add: dec_digits.simps [of m])
  next
    case False
    then obtain d ds where "dec_digits (m div 10) = d # ds" "list_all isDigit ds" "isDigit d"
       "0 < m div 10 \<longrightarrow> (49 :: nat) \<le> of_char d"
      using "1.IH" by auto
    then show ?thesis
      using False digit_char_facts(2) [of m] by (simp add: dec_digits.simps [of m])
  qed
qed

lemma scan_digits:
  "sc_step s = sState1 \<Longrightarrow> list_all isDigit ds \<Longrightarrow>
   quiet_run s ds = Some (s\<lparr>sc_step := sState1, sc_bytes := sc_bytes s + length ds\<rparr>)"
  by (induction ds arbitrary: s) (auto simp: scan_step_def state1_def)

lemma nonzero_digit_begins:
  assumes "isDigit d" "(49 :: nat) \<le> of_char d"
  shows "stateBeginValue s d = (s\<lparr>sc_step := sState1\<rparr>, scanBeginLiteral)"
    and "stateNeg s d = (s\<lparr>sc_step := sState1\<rparr>, scanContinue)"
proof -
  have "\<not> isSpace d" "d \<noteq> CHR ''{''" "d \<noteq> CHR ''[''" "d \<noteq> dquote" "d \<noteq> CHR ''-''" "d \<noteq> CHR ''0''"
    "d \<noteq> CHR ''t''" "d \<noteq> CHR ''f''" "d \<noteq> CHR ''n''"
    using assms unfolding isSpace_def isDigit_def by auto
  then show "stateBeginValue s d = (s\<lparr>sc_step := sState1\<rparr>, scanBeginLiteral)"
    "stateNeg s d = (s\<lparr>sc_step := sState1\<rparr>, scanContinue)"
    using assms by (simp_all add: stateBeginValue_def stateNeg_def isDigit_def)
qed

lemma int_decimal_zero: "int_decimal 0 = ''0''"
  by (simp add: int_decimal_def dec_digits.simps [of 0] char_of_def bit_0)

lemma scan_int_zero:
  "sc_step s = sBeginValue \<Longrightarrow> quiet_run s ''0'' = Some (s\<lparr>sc_step := sState0, sc_bytes := Suc (sc_bytes s)\<rparr>)"
  by (simp add: scan_step_def stateBeginValue_def isSpace_def)
lemma scan_int_decimal:
  assumes "sc_step s = sBeginValue"
  shows "quiet_run s (int_decimal n) =
           Some (s\<lparr>sc_step := (if n = 0 then sState0 else sState1),
                   sc_bytes := sc_bytes s + length (int_decimal n)\<rparr>)"
proof (cases "n = 0")
  case True
  then show ?thesis
    using scan_int_zero [OF assms] by (simp add: int_decimal_zero)
next
  case False
  define m where "m = (if n < 0 then nat (- n) else nat n)"
  have "0 < m"
    using False by (simp add: m_def)
  then obtain d ds where dd: "dec_digits m = d # ds" "list_all isDigit ds" "isDigit d" "(49 :: nat) \<le> of_char d"
    using dec_digits_shape [of m] by auto
  let ?s1 = "s\<lparr>sc_bytes := Suc (sc_bytes s), sc_step := sState1\<rparr>"
  have digits: "quiet_run ?s1 ds = Some (?s1\<lparr>sc_step := sState1, sc_bytes := sc_bytes ?s1 + length ds\<rparr>)"
    by (rule scan_digits) (simp_all add: dd(2))
  show ?thesis
  proof (cases "n < 0")
    case True
    then have eq: "int_decimal n = CHR ''-'' # d # ds"
      using dd(1) by (simp add: int_decimal_def m_def)
    have neg: "scan_step (s\<lparr>sc_bytes := Suc (sc_bytes s)\<rparr>) (CHR ''-'') =
               Some (s\<lparr>sc_bytes := Suc (sc_bytes s), sc_step := sNeg\<rparr>, scanBeginLiteral)"
      using assms by (simp add: scan_step_def stateBeginValue_def isSpace_def)
    have "scan_step (s\<lparr>sc_step := sNeg, sc_bytes := Suc (Suc (sc_bytes s))\<rparr>) d =
          Some (s\<lparr>sc_step := sState1, sc_bytes := Suc (Suc (sc_bytes s))\<rparr>, scanContinue)"
      by (simp add: scan_step_def nonzero_digit_begins(2) [OF dd(3,4)])
    then show ?thesis
      using False neg scan_digits [of "s\<lparr>sc_step := sState1, sc_bytes := Suc (Suc (sc_bytes s))\<rparr>" ds] dd(2)
      unfolding eq by simp
  next
    case nn: False
    then have eq: "int_decimal n = d # ds"
      using dd(1) by (simp add: int_decimal_def m_def)
    have "scan_step (s\<lparr>sc_bytes := Suc (sc_bytes s)\<rparr>) d = Some (?s1, scanBeginLiteral)"
      using assms by (simp add: scan_step_def nonzero_digit_begins(1) [OF dd(3,4)])
    then show ?thesis
      using False digits unfolding eq by simp
  qed
qed

lemma foldr_max_ge: "x \<in> set xs \<Longrightarrow> x \<le> foldr max xs (a :: nat)"
  by (induction xs) auto

lemma json_depth_member: "(k, v) \<in> set fs \<Longrightarrow> json_depth v < json_depth (JObject fs)"
  using foldr_max_ge [of "json_depth v" "map (\<lambda>(k, v). json_depth v) fs" 0]
  by (force simp: image_iff)

lemma scan_after_value:
  assumes "sc_step s \<in> {sEndValue, sState0, sState1}" "sc_parseState s = ps @ [parseObjectValue]"
  shows scan_comma: "scan_step s (CHR '','') =
           Some (s\<lparr>sc_step := sBeginString, sc_parseState := ps @ [parseObjectKey]\<rparr>, scanObjectValue)"
    and scan_close: "scan_step s (CHR ''}'') = Some (popParseState s, scanEndObject)"
  using assms
  by (auto simp: scan_step_def state0_def state1_def stateEndValue_def set_top_def isSpace_def isDigit_def)

lemma popParseState_value:
  "sc_parseState s = ps @ [p] \<Longrightarrow>
   popParseState s = (if ps = [] then s\<lparr>sc_step := sEndTop, sc_endTop := True, sc_parseState := []\<rparr>
                      else s\<lparr>sc_step := sEndValue, sc_parseState := ps\<rparr>)"
  by (simp add: popParseState_def)

lemma scan_colon:
  "sc_step s = sEndValue \<Longrightarrow> sc_parseState s = ps @ [parseObjectKey] \<Longrightarrow>
   scan_step s (CHR '':'') =
     Some (s\<lparr>sc_step := sBeginValue, sc_parseState := ps @ [parseObjectValue]\<rparr>, scanObjectKey)"
  by (simp add: scan_step_def stateEndValue_def set_top_def isSpace_def)

lemma scan_key:
  assumes "sc_step s \<in> {sBeginStringOrEmpty, sBeginString}" "sc_parseState s \<noteq> []"
  shows "quiet_run s (appendString [] k h) =
           Some (s\<lparr>sc_step := sEndValue, sc_bytes := sc_bytes s + length (appendString [] k h)\<rparr>)"
proof -
  let ?t = "s\<lparr>sc_step := sInString, sc_bytes := Suc (sc_bytes s)\<rparr>"
  have open_q: "scan_step (s\<lparr>sc_bytes := Suc (sc_bytes s)\<rparr>) dquote = Some (?t, scanBeginLiteral)"
    using assms by (auto simp: scan_step_def stateBeginString_def stateBeginStringOrEmpty_def isSpace_def)
  have body: "quiet_run ?t (json_escape h k) =
      Some (?t\<lparr>sc_bytes := sc_bytes ?t + length (json_escape h k)\<rparr>)"
    by (rule scan_json_escape) simp
  show ?thesis
    using open_q body
    by (simp add: appendString_unfold quiet_chain scan_step_def stateInString_def)
qed


lemma scan_scalar:
  assumes "sc_step s = sBeginValue" "\<forall>fs. j \<noteq> JObject fs"
  shows "quiet_run s (json_encode h j) =
           Some (s\<lparr>sc_step := nested_end j, sc_bytes := sc_bytes s + length (json_encode h j)\<rparr>)"
proof (cases j)
  case (JObject fs)
  with assms(2) show ?thesis by simp
next
  case (JString str)
  let ?t = "s\<lparr>sc_step := sInString, sc_bytes := Suc (sc_bytes s)\<rparr>"
  have open_q: "scan_step (s\<lparr>sc_bytes := Suc (sc_bytes s)\<rparr>) dquote = Some (?t, scanBeginLiteral)"
    using assms by (simp add: scan_step_def stateBeginValue_def isSpace_def)
  have body: "quiet_run ?t (json_escape h str) =
      Some (?t\<lparr>sc_bytes := sc_bytes ?t + length (json_escape h str)\<rparr>)"
    by (rule scan_json_escape) simp
  show ?thesis
    using JString open_q body
    by (simp add: appendString_unfold quiet_chain scan_step_def stateInString_def)
next
  case (JNumber n)
  then show ?thesis
    using scan_int_decimal [OF assms(1)] by simp
next
  case (JBool b)
  then show ?thesis
    using assms(1)
    by (cases b) (simp_all add: scan_step_def stateBeginValue_def isSpace_def stateT_def stateTr_def
        stateTru_def stateF_def stateFa_def stateFal_def stateFals_def literal_step_def)
next
  case JNull
  then show ?thesis
    using assms(1)
    by (simp add: scan_step_def stateBeginValue_def isSpace_def stateN_def stateNu_def stateNul_def
        literal_step_def)
qed


lemma nested_end_cases: "nested_end v \<in> {sEndValue, sState0, sState1}"
  by (cases v rule: nested_end.cases) auto

lemma scan_member:
  assumes "sc_step s \<in> {sBeginStringOrEmpty, sBeginString}" "sc_parseState s = ps @ [parseObjectKey]"
    and V: "\<And>t. sc_step t = sBeginValue \<Longrightarrow> sc_parseState t = ps @ [parseObjectValue] \<Longrightarrow>
              quiet_run t (json_encode h v) =
                Some (t\<lparr>sc_step := nested_end v, sc_bytes := sc_bytes t + length (json_encode h v)\<rparr>)"
  shows "quiet_run s (appendString [] k h @ '':'' @ json_encode h v) =
           Some (s\<lparr>sc_step := nested_end v, sc_parseState := ps @ [parseObjectValue],
                   sc_bytes := sc_bytes s + length (appendString [] k h @ '':'' @ json_encode h v)\<rparr>)"
proof -
  let ?s1 = "s\<lparr>sc_step := sEndValue, sc_bytes := sc_bytes s + length (appendString [] k h)\<rparr>"
  let ?t = "s\<lparr>sc_step := sBeginValue, sc_parseState := ps @ [parseObjectValue],
               sc_bytes := Suc (sc_bytes s + length (appendString [] k h))\<rparr>"
  have key: "quiet_run s (appendString [] k h) = Some (?s1)"
    using assms(1,2) by (simp add: scan_key)
  have colon: "scan_step (?s1\<lparr>sc_bytes := Suc (sc_bytes ?s1)\<rparr>) (CHR '':'') = Some (?t, scanObjectKey)"
    using scan_colon [of "?s1\<lparr>sc_bytes := Suc (sc_bytes ?s1)\<rparr>" ps] assms(2) by simp
  have "quiet_run ?t (json_encode h v) =
          Some (?t\<lparr>sc_step := nested_end v, sc_bytes := sc_bytes ?t + length (json_encode h v)\<rparr>)"
    by (rule V) simp_all
  then show ?thesis
    using key colon by (simp add: quiet_chain)
qed

lemma scan_members:
  assumes "fs \<noteq> []" "sc_step s \<in> {sBeginStringOrEmpty, sBeginString}" "sc_parseState s = ps @ [parseObjectKey]"
    and V: "\<And>k v t. (k, v) \<in> set fs \<Longrightarrow> sc_step t = sBeginValue \<Longrightarrow> sc_parseState t = ps @ [parseObjectValue] \<Longrightarrow>
              quiet_run t (json_encode h v) =
                Some (t\<lparr>sc_step := nested_end v, sc_bytes := sc_bytes t + length (json_encode h v)\<rparr>)"
  shows "quiet_run s (join_comma (map (\<lambda>(k, v). appendString [] k h @ '':'' @ json_encode h v) fs)) =
           Some (s\<lparr>sc_step := nested_end (snd (last fs)), sc_parseState := ps @ [parseObjectValue],
                   sc_bytes := sc_bytes s + length (join_comma (map (\<lambda>(k, v). appendString [] k h @ '':'' @ json_encode h v) fs))\<rparr>)"
  using assms
proof (induction fs arbitrary: s rule: induct_list012)
  case 1
  then show ?case by simp
next
  case (2 x)
  obtain k v where x: "x = (k, v)" by force
  show ?case
    using scan_member [OF "2.prems"(2,3), of h v k] "2.prems"(4) [of k v] x by simp
next
  case (3 x y zs)
  obtain k v where x: "x = (k, v)" by force
  let ?m = "appendString [] k h @ '':'' @ json_encode h v"
  let ?s1 = "s\<lparr>sc_step := nested_end v, sc_parseState := ps @ [parseObjectValue], sc_bytes := sc_bytes s + length ?m\<rparr>"
  let ?t = "s\<lparr>sc_step := sBeginString, sc_parseState := ps @ [parseObjectKey], sc_bytes := Suc (sc_bytes s + length ?m)\<rparr>"
  have m: "quiet_run s ?m = Some (?s1)"
    using scan_member [OF "3.prems"(2,3), of h v k] "3.prems"(4) [of k v] x by simp
  have comma: "scan_step (?s1\<lparr>sc_bytes := Suc (sc_bytes ?s1)\<rparr>) (CHR '','') = Some (?t, scanObjectValue)"
    using scan_comma [of "?s1\<lparr>sc_bytes := Suc (sc_bytes ?s1)\<rparr>" ps] nested_end_cases [of v] by simp
  have rest: "quiet_run ?t (join_comma (map (\<lambda>(k, v). appendString [] k h @ '':'' @ json_encode h v) (y # zs))) =
      Some (?t\<lparr>sc_step := nested_end (snd (last (y # zs))), sc_parseState := ps @ [parseObjectValue],
               sc_bytes := sc_bytes ?t + length (join_comma (map (\<lambda>(k, v). appendString [] k h @ '':'' @ json_encode h v) (y # zs)))\<rparr>)"
    by (rule "3.IH"(2)) (auto intro: "3.prems"(4))
  let ?R = "join_comma (map (\<lambda>(k, v). appendString [] k h @ '':'' @ json_encode h v) (y # zs))"
  have eq: "join_comma (map (\<lambda>(k, v). appendString [] k h @ '':'' @ json_encode h v) (x # y # zs)) =
            ?m @ (CHR '','' # ?R)"
    by (simp add: x)
  have "quiet_run s (?m @ (CHR '','' # ?R)) = quiet_run ?s1 (CHR '','' # ?R)"
    by (rule quiet_chain [OF m])
  also have "\<dots> = quiet_run ?t ?R"
    using comma by simp
  finally show ?case
    unfolding eq using rest by simp
qed


lemma scan_open_object:
  assumes "sc_step s = sBeginValue" "length (sc_parseState s) < maxNestingDepth"
  shows "scan_step s (CHR ''{'') =
           Some (s\<lparr>sc_step := sBeginStringOrEmpty, sc_parseState := sc_parseState s @ [parseObjectKey]\<rparr>,
                 scanBeginObject)"
  using assms by (simp add: scan_step_def stateBeginValue_def pushParseState_def isSpace_def)

lemma scan_empty_object:
  assumes "sc_step s = sBeginStringOrEmpty" "sc_parseState s = ps @ [parseObjectKey]"
  shows "scan_step s (CHR ''}'') = Some (popParseState (s\<lparr>sc_parseState := ps @ [parseObjectValue]\<rparr>), scanEndObject)"
  using assms by (simp add: scan_step_def stateBeginStringOrEmpty_def stateEndValue_def set_top_def isSpace_def)

lemma scan_value:
  "sc_step s = sBeginValue \<Longrightarrow> sc_parseState s \<noteq> [] \<Longrightarrow>
   length (sc_parseState s) + json_depth j \<le> maxNestingDepth \<Longrightarrow>
   quiet_run s (json_encode h j) =
     Some (s\<lparr>sc_step := nested_end j, sc_bytes := sc_bytes s + length (json_encode h j)\<rparr>)"
proof (induction h j arbitrary: s rule: json_encode.induct)
  case (1 h fs)
  define ps where "ps = sc_parseState s"
  define J where "J = join_comma (map (\<lambda>(k, v). appendString [] k h @ '':'' @ json_encode h v) fs)"
  let ?o = "s\<lparr>sc_step := sBeginStringOrEmpty, sc_parseState := ps @ [parseObjectKey], sc_bytes := Suc (sc_bytes s)\<rparr>"
  have opened: "scan_step (s\<lparr>sc_bytes := Suc (sc_bytes s)\<rparr>) (CHR ''{'') = Some (?o, scanBeginObject)"
    using scan_open_object [of "s\<lparr>sc_bytes := Suc (sc_bytes s)\<rparr>"] "1.prems" by (simp add: ps_def)
  have enc: "json_encode h (JObject fs) = CHR ''{'' # (J @ [CHR ''}''])"
    by (simp add: J_def)
  show ?case
  proof (cases "fs = []")
    case True
    then show ?thesis
      using opened scan_empty_object [of "?o\<lparr>sc_bytes := Suc (sc_bytes ?o)\<rparr>" ps] "1.prems"(2)
      unfolding enc by (simp add: J_def popParseState_value ps_def)
  next
    case False
    let ?v = "snd (last fs)"
    have members: "quiet_run ?o J =
        Some (?o\<lparr>sc_step := nested_end ?v, sc_parseState := ps @ [parseObjectValue], sc_bytes := sc_bytes ?o + length J\<rparr>)"
      unfolding J_def
    proof (rule scan_members [OF False])
      fix k v and t :: scanner
      assume kv: "(k, v) \<in> set fs" and t: "sc_step t = sBeginValue" "sc_parseState t = ps @ [parseObjectValue]"
      have "length (sc_parseState t) + json_depth v \<le> maxNestingDepth"
        using json_depth_member [OF kv] "1.prems"(3) t(2) by (simp add: ps_def)
      then show "quiet_run t (json_encode h v) =
          Some (t\<lparr>sc_step := nested_end v, sc_bytes := sc_bytes t + length (json_encode h v)\<rparr>)"
        using "1.IH" [OF kv refl t(1)] t(2) by simp
    qed simp_all
    have "scan_step (?o\<lparr>sc_step := nested_end ?v, sc_parseState := ps @ [parseObjectValue],
                         sc_bytes := Suc (sc_bytes ?o + length J)\<rparr>) (CHR ''}'') =
          Some (s\<lparr>sc_step := sEndValue, sc_parseState := ps, sc_bytes := Suc (Suc (sc_bytes s + length J))\<rparr>, scanEndObject)"
      using scan_close [of "?o\<lparr>sc_step := nested_end ?v, sc_parseState := ps @ [parseObjectValue],
                         sc_bytes := Suc (sc_bytes ?o + length J)\<rparr>" ps] nested_end_cases [of ?v] "1.prems"(2)
      by (simp add: popParseState_value ps_def)
    then show ?thesis
      unfolding enc using opened members "1.prems"(2) by (simp add: quiet_chain ps_def)
  qed
qed (rule scan_scalar; simp)+

lemma scan_done_space:
  assumes "scan_done s" "isSpace c"
  shows "\<exists>s'. scan_step s c = Some (s', scanEnd) \<and> scan_done s' \<and> sc_endTop s'"
  using assms
  by (auto simp: scan_done_def scan_step_def stateEndTop_def stateEndValue_def state0_def state1_def
      isSpace_def isDigit_def)

lemma scan_done_spaces:
  "scan_done s \<Longrightarrow> list_all isSpace ws \<Longrightarrow> \<exists>s'. checkValid_loop s ws = Some (s', False) \<and> scan_done s'"
proof (induction ws arbitrary: s)
  case Nil
  then show ?case by simp
next
  case (Cons c ws)
  have "scan_done (s\<lparr>sc_bytes := Suc (sc_bytes s)\<rparr>)"
    using Cons.prems(1) by (simp add: scan_done_def)
  then obtain s' where "scan_step (s\<lparr>sc_bytes := Suc (sc_bytes s)\<rparr>) c = Some (s', scanEnd)" "scan_done s'"
    using scan_done_space [of "s\<lparr>sc_bytes := Suc (sc_bytes s)\<rparr>" c] Cons.prems(2) by auto
  then show ?case
    using Cons.IH [of s'] Cons.prems(2) by simp
qed

lemma scan_done_eof: "scan_done s \<Longrightarrow> \<exists>s'. scan_eof s = Some (s', scanEnd)"
  using scan_done_space [of s "CHR '' ''"]
  by (auto simp: scan_eof_def scan_done_def isSpace_def)

text \<open>A top-level object: every byte but the closing brace is quiet, and the closing brace
  leaves the scanner at the end of the top-level value, having counted the whole document.\<close>

lemma scan_top_object:
  assumes "json_depth (JObject fs) \<le> maxNestingDepth"
  obtains J t where "json_encode h (JObject fs) = J @ [CHR ''}'']"
    "quiet_run (scan_reset zero_scanner) J = Some t"
    "scan_step (t\<lparr>sc_bytes := Suc (sc_bytes t)\<rparr>) (CHR ''}'') =
       Some (\<lparr>sc_step = sEndTop, sc_endTop = True, sc_parseState = [], sc_err = None,
               sc_bytes = length (json_encode h (JObject fs))\<rparr>, scanEndObject)"
proof -
  let ?s = "scan_reset zero_scanner"
  define J where "J = join_comma (map (\<lambda>(k, v). appendString [] k h @ '':'' @ json_encode h v) fs)"
  let ?o = "?s\<lparr>sc_step := sBeginStringOrEmpty, sc_parseState := [parseObjectKey], sc_bytes := Suc (sc_bytes ?s)\<rparr>"
  have opened: "scan_step (?s\<lparr>sc_bytes := Suc (sc_bytes ?s)\<rparr>) (CHR ''{'') = Some (?o, scanBeginObject)"
    using scan_open_object [of "?s\<lparr>sc_bytes := Suc (sc_bytes ?s)\<rparr>"]
    by (simp add: scan_reset_def zero_scanner_def maxNestingDepth_def)
  then have o: "quiet_run ?s [CHR ''{''] = Some ?o"
    by simp
  have enc: "json_encode h (JObject fs) = (CHR ''{'' # J) @ [CHR ''}'']"
    by (simp add: J_def)
  show ?thesis
  proof (cases "fs = []")
    case True
    then show ?thesis
      using that [of "[CHR ''{'']" ?o] o scan_empty_object [of "?o\<lparr>sc_bytes := Suc (sc_bytes ?o)\<rparr>" "[]"]
      by (simp add: popParseState_value scan_reset_def zero_scanner_def)
  next
    case False
    let ?v = "snd (last fs)"
    have V: "\<And>k v t. (k, v) \<in> set fs \<Longrightarrow> sc_step t = sBeginValue \<Longrightarrow> sc_parseState t = [] @ [parseObjectValue] \<Longrightarrow>
        quiet_run t (json_encode h v) =
          Some (t\<lparr>sc_step := nested_end v, sc_bytes := sc_bytes t + length (json_encode h v)\<rparr>)"
    proof -
      fix k v and t :: scanner
      assume kv: "(k, v) \<in> set fs" and t: "sc_step t = sBeginValue" "sc_parseState t = [] @ [parseObjectValue]"
      have "length (sc_parseState t) + json_depth v \<le> maxNestingDepth"
        using json_depth_member [OF kv] assms t(2) by simp
      then show "quiet_run t (json_encode h v) =
          Some (t\<lparr>sc_step := nested_end v, sc_bytes := sc_bytes t + length (json_encode h v)\<rparr>)"
        using scan_value [of t v h] t by simp
    qed
    have members: "quiet_run ?o J =
        Some (?o\<lparr>sc_step := nested_end ?v, sc_parseState := [parseObjectValue], sc_bytes := sc_bytes ?o + length J\<rparr>)"
      using scan_members [OF False _ _ V, of ?o] unfolding J_def by simp
    have closed: "scan_step (?o\<lparr>sc_step := nested_end ?v, sc_parseState := [parseObjectValue],
                         sc_bytes := Suc (sc_bytes ?o + length J)\<rparr>) (CHR ''}'') =
          Some (?o\<lparr>sc_step := sEndTop, sc_endTop := True, sc_parseState := [],
                   sc_bytes := Suc (sc_bytes ?o + length J)\<rparr>, scanEndObject)"
      using scan_close [of "?o\<lparr>sc_step := nested_end ?v, sc_parseState := [parseObjectValue],
                         sc_bytes := Suc (sc_bytes ?o + length J)\<rparr>" "[]"] nested_end_cases [of ?v]
      by (simp add: popParseState_value)
    have "quiet_run ?s (CHR ''{'' # J) = quiet_run ?o J"
      using quiet_chain [OF o, of J] by simp
    then show ?thesis
      using that [of "CHR ''{'' # J"] enc members closed
      by (simp add: scan_reset_def zero_scanner_def)
  qed
qed

lemma scan_top_value:
  assumes "json_depth j \<le> maxNestingDepth"
  shows "\<exists>s'. checkValid_loop (scan_reset zero_scanner) (json_encode h j) = Some (s', False) \<and> scan_done s'"
proof (cases "\<exists>fs. j = JObject fs")
  case False
  then have "quiet_run (scan_reset zero_scanner) (json_encode h j) =
      Some ((scan_reset zero_scanner)\<lparr>sc_step := nested_end j, sc_bytes := length (json_encode h j)\<rparr>)"
    using scan_scalar [of "scan_reset zero_scanner" j h] by (simp add: scan_reset_def zero_scanner_def)
  then show ?thesis
    using quiet_checkValid [of _ "json_encode h j" _ "[]"] False nested_end_cases [of j]
    by (auto simp: scan_reset_def zero_scanner_def scan_done_def)
next
  case True
  then obtain fs where j: "j = JObject fs" by blast
  obtain J t where "json_encode h j = J @ [CHR ''}'']" "quiet_run (scan_reset zero_scanner) J = Some t"
    "scan_step (t\<lparr>sc_bytes := Suc (sc_bytes t)\<rparr>) (CHR ''}'') =
       Some (\<lparr>sc_step = sEndTop, sc_endTop = True, sc_parseState = [], sc_err = None,
               sc_bytes = length (json_encode h j)\<rparr>, scanEndObject)"
    using scan_top_object [of fs h] assms j by metis
  then show ?thesis
    by (simp add: quiet_checkValid scan_done_def)
qed

text \<open>After a syntax error the scanner stays in \<open>stateError\<close> and keeps the first error.\<close>

lemma checkValid_loop_error:
  "sc_step s = sError \<Longrightarrow> sc_err s = Some e \<Longrightarrow>
   \<exists>s' b. checkValid_loop s rest = Some (s', b) \<and> sc_err s' = Some e"
  by (cases rest) (auto simp: scan_step_def stateError_def)

text \<open>\<open>json.Unmarshal\<close> rejects an object followed by a byte that is not white space, at
  the offset of that byte.\<close>

lemma checkValid_object_trailing:
  assumes "json_depth (JObject fs) \<le> maxNestingDepth" "\<not> isSpace c"
  shows "checkValid (json_encode h (JObject fs) @ c # rest) =
    Some (Some \<lparr>se_msg = ''invalid character '' @ quoteChar c @ '' after top-level value'',
                se_Offset = Suc (length (json_encode h (JObject fs)))\<rparr>)"
proof -
  let ?n = "length (json_encode h (JObject fs))"
  let ?e = "\<lparr>se_msg = ''invalid character '' @ quoteChar c @ '' after top-level value'', se_Offset = Suc ?n\<rparr>"
  obtain J t where enc: "json_encode h (JObject fs) = J @ [CHR ''}'']"
    and q: "quiet_run (scan_reset zero_scanner) J = Some t"
    and close: "scan_step (t\<lparr>sc_bytes := Suc (sc_bytes t)\<rparr>) (CHR ''}'') =
       Some (\<lparr>sc_step = sEndTop, sc_endTop = True, sc_parseState = [], sc_err = None, sc_bytes = ?n\<rparr>,
             scanEndObject)"
    using scan_top_object [OF assms(1)] by metis
  let ?err = "\<lparr>sc_step = sError, sc_endTop = True, sc_parseState = [], sc_err = Some ?e, sc_bytes = Suc ?n\<rparr>"
  have loop: "checkValid_loop (scan_reset zero_scanner) (json_encode h (JObject fs) @ c # rest) =
      checkValid_loop ?err rest"
    using quiet_checkValid [OF q, of "CHR ''}'' # c # rest"] close assms(2)
    unfolding enc by (simp add: scan_step_def stateEndTop_def scan_error_def)
  obtain s' b where "checkValid_loop ?err rest = Some (s', b)" "sc_err s' = Some ?e"
    using checkValid_loop_error [of ?err ?e rest] by auto
  then show ?thesis
    using loop by (cases b) (simp_all add: checkValid_def scan_eof_def)
qed

text \<open>\<open>json.Decoder\<close> stops reading at the closing brace of an object, whatever follows.\<close>

lemma Decoder_readValue_object:
  assumes "json_depth (JObject fs) \<le> maxNestingDepth"
  shows "Decoder_readValue (json_encode h (JObject fs) @ rest) = Some (Inr (length (json_encode h (JObject fs))))"
proof -
  define D where "D = json_encode h (JObject fs)"
  obtain J t where enc: "D = J @ [CHR ''}'']"
    and q: "quiet_run (scan_reset zero_scanner) J = Some t"
    and close: "scan_step (t\<lparr>sc_bytes := Suc (sc_bytes t)\<rparr>) (CHR ''}'') =
       Some (\<lparr>sc_step = sEndTop, sc_endTop = True, sc_parseState = [], sc_err = None, sc_bytes = length D\<rparr>,
             scanEndObject)"
    using scan_top_object [OF assms] unfolding D_def by metis
  have len: "length D = Suc (length J)"
    using enc by simp
  have "readValue_scan (scan_reset zero_scanner) (D @ rest) 0 = readValue_scan t (CHR ''}'' # rest) (length J)"
    using quiet_readValue [OF q, of "CHR ''}'' # rest" 0] unfolding enc by simp
  also have "\<dots> = Some (\<lparr>sc_step = sEndTop, sc_endTop = True, sc_parseState = [], sc_err = None,
                         sc_bytes = length D\<rparr>, Some (Inr (length D)))"
    using close len by (simp add: stateEndValue_def stateEndTop_def isSpace_def)
  finally show ?thesis
    unfolding D_def [symmetric] by (simp add: Decoder_readValue_def)
qed

lemma checkValid_encode_spaces:
  assumes "json_depth j \<le> maxNestingDepth" "list_all isSpace ws"
  shows "checkValid (json_encode h j @ ws) = Some None"
proof -
  obtain s where s: "checkValid_loop (scan_reset zero_scanner) (json_encode h j) = Some (s, False)" "scan_done s"
    using scan_top_value [OF assms(1)] by blast
  obtain s' where s': "checkValid_loop s ws = Some (s', False)" "scan_done s'"
    using scan_done_spaces [OF s(2) assms(2)] by blast
  obtain s'' where "scan_eof s' = Some (s'', scanEnd)"
    using scan_done_eof [OF s'(2)] by blast
  then show ?thesis
    using s s' by (simp add: checkValid_def checkValid_loop_chain)
qed

text \<open>C10. Every JSON document the encoder of theory \<open>Json\<close> writes, with or without HTML
  escaping, passes the syntax check of \<open>json.Unmarshal\<close> whenever it nests no deeper than the
  scanner's limit: the string encoder's escapes and raw multi-byte sequences are all accepted
  inside a string literal, and the numbers it prints are JSON numbers.\<close>

theorem checkValid_json_encode:
  "json_depth j \<le> maxNestingDepth \<Longrightarrow> checkValid (json_encode h j) = Some None"
  using checkValid_encode_spaces [of j "[]" h] by simp

section \<open>What the encoder writes is UTF-8\<close>

lemma utf8_valid_rune_prefix: "0 < rune_len s \<Longrightarrow> utf8_valid (take (rune_len s) s)"
  by (cases s rule: rune_len.cases) (auto simp: Let_def split: list.splits if_splits)

lemma hex_ascii: "k < 16 \<Longrightarrow> ascii (hex ! k)"
proof -
  assume "k < 16"
  moreover have "length hex = 16"
    by (simp add: hex_def)
  ultimately have "hex ! k \<in> set hex"
    by (metis nth_mem)
  moreover have "\<forall>c \<in> set hex. ascii c"
    by (simp add: hex_def ascii_def)
  ultimately show ?thesis
    by blast
qed

lemma escape_units_ascii:
  "list_all ascii (escape_ascii c)" "list_all ascii replacement" "list_all ascii (escape_line_sep r)"
proof -
  have "of_char c div 16 < (16 :: nat)"
    using nat_of_char_less_256 [of c] by (simp add: less_mult_imp_div_less)
  then have "ascii (hex ! (of_char c div 16))" "ascii (hex ! (of_char c mod 16))"
    by (simp_all add: hex_ascii)
  then show "list_all ascii (escape_ascii c)"
    unfolding ascii_def by (simp add: escape_ascii_def)
  show "list_all ascii replacement"
    by (simp add: replacement_def ascii_def)
  have "ascii (hex ! (of_char (last r) mod 16))"
    by (simp add: hex_ascii)
  then show "list_all ascii (escape_line_sep r)"
    unfolding ascii_def by (simp add: escape_line_sep_def)
qed

lemma utf8_valid_json_escape: "utf8_valid (json_escape h s)"
proof (induction h s rule: json_escape.induct)
  case (1 h)
  then show ?case by simp
next
  case (2 h c cs)
  show ?case
  proof (cases "of_char c < (128 :: nat)")
    case True
    then have "utf8_valid (if copied_raw h c then [c] else escape_ascii c)"
      using escape_units_ascii(1) [of c] by (simp add: utf8_valid_ascii)
    with True "2.IH"(1) show ?thesis
      by (simp add: utf8_valid_append)
  next
    case False
    define n where "n = rune_len (c # cs)"
    show ?thesis
    proof (cases "n = 0")
      case True
      with False "2.IH"(2) [OF False n_def True] show ?thesis
        using utf8_valid_ascii [OF escape_units_ascii(2)] by (simp add: n_def [symmetric] utf8_valid_append)
    next
      case nz: False
      have "utf8_valid (if line_sep (take n (c # cs)) then escape_line_sep (take n (c # cs)) else take n (c # cs))"
        using utf8_valid_ascii [OF escape_units_ascii(3)] utf8_valid_rune_prefix [of "c # cs"] nz
        by (simp add: n_def)
      with False nz "2.IH"(3) [OF False n_def nz] show ?thesis
        by (simp add: n_def [symmetric] Let_def utf8_valid_append)
    qed
  qed
qed


lemma utf8_valid_Nil: "utf8_valid []"
  by simp

lemma utf8_valid_Cons_ascii: "ascii c \<Longrightarrow> utf8_valid ys \<Longrightarrow> utf8_valid (c # ys)"
  by (simp add: utf8_valid_ascii_Cons del: utf8_valid.simps(2,3))

lemma utf8_valid_append_ascii: "ascii c \<Longrightarrow> utf8_valid xs \<Longrightarrow> utf8_valid ys \<Longrightarrow> utf8_valid (xs @ c # ys)"
  by (simp add: utf8_valid_append utf8_valid_Cons_ascii del: utf8_valid.simps(2,3))

lemma utf8_valid_snoc_ascii: "ascii c \<Longrightarrow> utf8_valid xs \<Longrightarrow> utf8_valid (xs @ [c])"
  using utf8_valid_append_ascii [of c xs "[]"] by simp

lemma ascii_punctuation: "ascii dquote" "ascii (CHR '','')" "ascii (CHR '':'')" "ascii (CHR ''{'')" "ascii (CHR ''}'')"
  by (simp_all add: ascii_def)

lemmas utf8_valid_build = utf8_valid_Nil utf8_valid_Cons_ascii utf8_valid_append_ascii utf8_valid_snoc_ascii
  ascii_punctuation utf8_valid_append

lemma utf8_valid_join_comma: "list_all utf8_valid xs \<Longrightarrow> utf8_valid (join_comma xs)"
  by (induction xs rule: join_comma.induct) (simp_all add: utf8_valid_build del: utf8_valid.simps(2,3))

lemma utf8_valid_appendString: "utf8_valid (appendString [] k h)"
  by (simp add: appendString_unfold utf8_valid_build utf8_valid_json_escape del: utf8_valid.simps(2,3))

lemma utf8_valid_int_decimal: "utf8_valid (int_decimal n)"
proof -
  have "list_all ascii (dec_digits m)" for m
  proof -
    obtain d ds where "dec_digits m = d # ds" "list_all isDigit ds" "isDigit d"
      using dec_digits_shape [of m] by blast
    then show ?thesis
      by (auto simp: list_all_iff isDigit_def ascii_def)
  qed
  then show ?thesis
    by (simp add: int_decimal_def utf8_valid_ascii ascii_def)
qed

lemma utf8_valid_json_encode: "utf8_valid (json_encode h j)"
proof (induction h j rule: json_encode.induct)
  case (1 h fs)
  have "list_all utf8_valid (map (\<lambda>(k, v). appendString [] k h @ '':'' @ json_encode h v) fs)"
    using "1.IH" by (auto simp: list_all_iff utf8_valid_build utf8_valid_appendString simp del: utf8_valid.simps(2,3))
  then show ?case
    by (simp add: utf8_valid_join_comma utf8_valid_build del: utf8_valid.simps(2,3))
qed (simp_all add: utf8_valid_appendString utf8_valid_int_decimal utf8_valid_ascii ascii_def)

section \<open>The scanner never panics\<close>

lemma scan_step_total: "scan_inv s \<Longrightarrow> scan_step s c \<noteq> None"
  by (auto simp: scan_inv_def scan_step_def stateBeginStringOrEmpty_def split: step_fn.split)

lemma scan_error_inv: "scan_inv (fst (scan_error s c ctx))"
  by (simp add: scan_error_def scan_inv_def)

lemma scan_step_inv:
  assumes "scan_inv s" "scan_step s c = Some (s', code)"
  shows "scan_inv s'"
  using assms
  by (cases "sc_step s")
     (auto simp: scan_inv_def scan_step_def state_defs pushParseState_def popParseState_def
        scan_error_def set_top_def Let_def split: if_splits parse_state.splits)


lemma checkValid_loop_inv:
  "scan_inv s \<Longrightarrow> \<exists>s' stopped. checkValid_loop s data = Some (s', stopped) \<and> scan_inv s'"
proof (induction data arbitrary: s)
  case Nil
  then show ?case by auto
next
  case (Cons c cs)
  have inv: "scan_inv (s\<lparr>sc_bytes := Suc (sc_bytes s)\<rparr>)"
    using Cons.prems by (simp add: scan_inv_def)
  then obtain s' code where step: "scan_step (s\<lparr>sc_bytes := Suc (sc_bytes s)\<rparr>) c = Some (s', code)"
    using scan_step_total by fastforce
  then have "scan_inv s'"
    using inv scan_step_inv by blast
  then show ?case
    using step Cons.IH [of s'] by auto
qed

lemma scan_eof_total: "scan_inv s \<Longrightarrow> scan_eof s \<noteq> None"
proof -
  assume "scan_inv s"
  then obtain s1 code where "scan_step s (CHR '' '') = Some (s1, code)"
    using scan_step_total [of s "CHR '' ''"] by fastforce
  then show ?thesis
    by (simp add: scan_eof_def)
qed

text \<open>C20. The syntax check never panics: \<open>stateBeginStringOrEmpty\<close>, which writes the top of
  the parse stack without checking that there is one, is only reached with a nonempty stack,
  whatever the payload.\<close>

theorem checkValid_never_panics: "checkValid data \<noteq> None"
proof -
  have "scan_inv (scan_reset zero_scanner)"
    by (simp add: scan_inv_def scan_reset_def)
  then obtain s stopped where "checkValid_loop (scan_reset zero_scanner) data = Some (s, stopped)" "scan_inv s"
    using checkValid_loop_inv by blast
  then show ?thesis
    using scan_eof_total [of s] by (cases stopped) (auto simp: checkValid_def split: option.split)
qed

section \<open>The nesting limit\<close>

lemma scan_open_arrays:
  assumes "sc_step s \<in> {sBeginValue, sBeginValueOrEmpty}" "sc_parseState s = replicate i parseArrayValue"
    "i + k \<le> maxNestingDepth"
  shows "checkValid_loop s (replicate k (CHR ''['')) =
           Some (s\<lparr>sc_step := (if k = 0 then sc_step s else sBeginValueOrEmpty),
                   sc_parseState := replicate (i + k) parseArrayValue, sc_bytes := sc_bytes s + k\<rparr>, False)"
  using assms
proof (induction k arbitrary: s i)
  case 0
  then show ?case by simp
next
  case (Suc k)
  let ?t = "s\<lparr>sc_step := sBeginValueOrEmpty, sc_parseState := replicate (Suc i) parseArrayValue,
              sc_bytes := Suc (sc_bytes s)\<rparr>"
  have step: "scan_step (s\<lparr>sc_bytes := Suc (sc_bytes s)\<rparr>) (CHR ''['') = Some (?t, scanBeginArray)"
    using Suc.prems
    by (auto simp: scan_step_def stateBeginValue_def stateBeginValueOrEmpty_def pushParseState_def
        isSpace_def replicate_append_same)
  have "checkValid_loop ?t (replicate k (CHR ''['')) =
          Some (?t\<lparr>sc_step := (if k = 0 then sc_step ?t else sBeginValueOrEmpty),
                   sc_parseState := replicate (Suc i + k) parseArrayValue, sc_bytes := sc_bytes ?t + k\<rparr>, False)"
    using Suc.prems by (intro Suc.IH) simp_all
  then show ?case
    using step by simp
qed

lemma quoteChar_bracket: "quoteChar (CHR ''['') = [squote, CHR ''['', squote]"
  by (simp add: quoteChar_def quote_rune_body_def utf8_encode_def char_of_def bit_0)

lemma maxNestingDepth_pos: "0 < maxNestingDepth"
  by (simp add: maxNestingDepth_def)


lemma replicate_split_depth: "\<not> n \<le> maxNestingDepth \<Longrightarrow> replicate n (CHR ''['') =
      replicate maxNestingDepth (CHR ''['') @ CHR ''['' # replicate (n - Suc maxNestingDepth) (CHR ''['')"
proof -
  assume "\<not> n \<le> maxNestingDepth"
  then have "n = maxNestingDepth + Suc (n - Suc maxNestingDepth)" by simp
  then show ?thesis
    by (metis replicate_add replicate_Suc)
qed

lemma scan_max_open_arrays: "checkValid_loop (scan_reset zero_scanner) (replicate maxNestingDepth (CHR ''['')) =
    Some ((scan_reset zero_scanner)\<lparr>sc_step := sBeginValueOrEmpty, sc_parseState := replicate maxNestingDepth parseArrayValue,
               sc_bytes := maxNestingDepth\<rparr>, False)"
    using scan_open_arrays [of "scan_reset zero_scanner" 0 maxNestingDepth] maxNestingDepth_pos
    by (simp add: scan_reset_def zero_scanner_def)

lemma scan_array_overflow: "scan_step ((scan_reset zero_scanner)\<lparr>sc_step := sBeginValueOrEmpty, sc_parseState := replicate maxNestingDepth parseArrayValue, sc_bytes := Suc maxNestingDepth\<rparr>) (CHR ''['') =
          Some (scan_error ((scan_reset zero_scanner)\<lparr>sc_step := sBeginValueOrEmpty, sc_parseState := replicate (Suc maxNestingDepth) parseArrayValue,
                               sc_bytes := Suc maxNestingDepth\<rparr>) (CHR ''['') ''exceeded max depth'')"
proof -
  have "replicate maxNestingDepth parseArrayValue @ [parseArrayValue] = replicate (Suc maxNestingDepth) parseArrayValue"
    by (simp add: replicate_append_same)
  then show ?thesis
    by (simp add: scan_step_def stateBeginValueOrEmpty_def stateBeginValue_def pushParseState_def isSpace_def
        scan_reset_def zero_scanner_def)
qed

lemma checkValid_open_arrays: "n \<le> maxNestingDepth \<Longrightarrow> checkValid (replicate n (CHR ''['')) =
     Some (Some \<lparr>se_msg = ''unexpected end of JSON input'', se_Offset = n\<rparr>)"
proof -
  assume True: "n \<le> maxNestingDepth"
  let ?s = "scan_reset zero_scanner"
  let ?t = "?s\<lparr>sc_step := (if n = 0 then sBeginValue else sBeginValueOrEmpty),
               sc_parseState := replicate n parseArrayValue, sc_bytes := n\<rparr>"
  have "checkValid_loop ?s (replicate n (CHR ''['')) = Some (?t, False)"
    using scan_open_arrays [of ?s 0 n] True by (simp add: scan_reset_def zero_scanner_def)
  moreover have "scan_step ?t (CHR '' '') = Some (?t, scanSkipSpace)"
    by (simp add: scan_step_def stateBeginValue_def stateBeginValueOrEmpty_def isSpace_def)
  ultimately show ?thesis
    by (simp add: checkValid_def scan_eof_def scan_reset_def zero_scanner_def)
qed

text \<open>C21. The scanner accepts composite values nested up to \<open>maxNestingDepth\<close> (10000) deep and
  rejects the next level: a payload of \<open>n\<close> opening brackets ends in "unexpected end of JSON
  input" at offset \<open>n\<close> while \<open>n\<close> is at most the limit, and in "exceeded max depth" at the
  bracket that passes it, offset 10001, otherwise.\<close>

theorem checkValid_nesting_limit:
  "checkValid (replicate n (CHR ''['')) =
     Some (Some \<lparr>se_msg = (if n \<le> maxNestingDepth then ''unexpected end of JSON input''
                          else ''invalid character '' @ [squote, CHR ''['', squote] @ '' exceeded max depth''),
                 se_Offset = min n (Suc maxNestingDepth)\<rparr>)"
proof (cases "n \<le> maxNestingDepth")
  case True
  then show ?thesis
    using checkValid_open_arrays by simp
next
  case False
  let ?t = "(scan_reset zero_scanner)\<lparr>sc_step := sBeginValueOrEmpty,
              sc_parseState := replicate maxNestingDepth parseArrayValue, sc_bytes := maxNestingDepth\<rparr>"
  have "scan_step (?t\<lparr>sc_bytes := Suc (sc_bytes ?t)\<rparr>) (CHR ''['') =
          Some (scan_error (?t\<lparr>sc_parseState := replicate (Suc maxNestingDepth) parseArrayValue,
                               sc_bytes := Suc maxNestingDepth\<rparr>) (CHR ''['') ''exceeded max depth'')"
    using scan_array_overflow by (simp add: scan_reset_def zero_scanner_def)
  then show ?thesis
    using False scan_max_open_arrays replicate_split_depth [OF False]
    by (simp add: checkValid_def checkValid_loop_chain scan_error_def quoteChar_bracket)
qed


section \<open>Witnesses\<close>

theorem checkValid_json_encode_witness:
  "json_depth (JObject [(''statusCode'', JNumber 200), (''body'', JString ''ok'')]) \<le> maxNestingDepth \<and>
   checkValid (json_encode True (JObject [(''statusCode'', JNumber 200), (''body'', JString ''ok'')])) = Some None"
  using checkValid_json_encode [of "JObject [(''statusCode'', JNumber 200), (''body'', JString ''ok'')]" True]
  by (simp add: maxNestingDepth_def)

end
