(* ===== verification/Lambda.thy ===== *)
theory Lambda
  imports Json Runtime Scanner
begin

text \<open>One invocation as \<open>lambda.Start\<close> (src/main.go, line 37) performs it in
  \<open>aws-lambda-go\<close>'s reflection wrapper around \<open>Handler\<close>: the event payload is decoded
  into an \<open>events.APIGatewayProxyRequest\<close>; if decoding fails the decoder's error is
  returned at once and posted as an invocation error (its type name and message), and
  the handler never runs; otherwise the handler is called, a non-nil error would be posted
  as an invocation error, and the response is encoded and posted. \<open>lambda_invoke\<close> takes
  the outcome of decoding, an error type and message or the decoded request, as its input
  \<open>event\<close>; \<open>lambda_handle\<close> computes it from the payload (section below). The encoding
  depends on the release: older releases call \<open>json.Marshal\<close>, newer ones a
  \<open>json.Encoder\<close> with HTML escaping off by default, whose trailing newline the wrapper
  strips again when no indent is set (\<open>main.go\<close> sets none), and decode with a
  \<open>json.Decoder\<close>; \<open>handler_options\<close> records which. The result is \<open>None\<close>
  only outside the modelled encoder (non-empty header maps) or on a scanner panic, which
  theory \<open>Scanner\<close> proves impossible.\<close>

record handler_options =
  jsonResponseEscapeHTML :: bool
  useEncoder :: bool
  useDecoder :: bool

datatype lambda_outcome = PostResponse go_string | PostError go_string go_string

definition encode_response :: "handler_options \<Rightarrow> APIGatewayProxyResponse \<Rightarrow> go_string option" where
  "encode_response opts r =
     map_option (\<lambda>j. let out = json_encode (jsonResponseEscapeHTML opts) j @
                                 (if useEncoder opts then ''\<newline>'' else [])
                     in if useEncoder opts then take (length out - 1) out else out)
       (json_of_response r)"

definition lambda_invoke ::
  "handler_options \<Rightarrow> ('e \<Rightarrow> go_string) \<Rightarrow> ('e \<Rightarrow> go_string) \<Rightarrow> 'e + go_string \<Rightarrow> lambda_context \<Rightarrow>
   (go_string \<times> go_string) + APIGatewayProxyRequest \<Rightarrow> lambda_outcome option" where
  "lambda_invoke opts ErrorType Error getwd ctx event =
     (case event of
        Inl (errorType, errorMessage) \<Rightarrow> Some (PostError errorType errorMessage)
      | Inr request \<Rightarrow>
          (case Handler Error ctx request getwd of
             (response, Some err) \<Rightarrow> Some (PostError (ErrorType err) (Error err))
           | (response, None) \<Rightarrow> map_option PostResponse (encode_response opts response)))"

definition json_Marshal_options :: handler_options where
  "json_Marshal_options = \<lparr>jsonResponseEscapeHTML = True, useEncoder = False, useDecoder = False\<rparr>"

section \<open>Decoding the event and posting the answer\<close>

text \<open>The event payload is decoded by \<open>json.Unmarshal\<close> in releases that call it, and by
  \<open>json.NewDecoder(...).Decode\<close> in releases with decoder options (\<open>useDecoder\<close>). Both
  first check the syntax with the scanner of theory \<open>Scanner\<close>; filling the request struct
  from a syntactically valid document, \<open>d.unmarshal\<close>, is the input \<open>d_unmarshal\<close>: it
  returns the type name and message of a decoding error or the request. An error is posted
  with its type name as \<open>lambdaErrorResponse\<close> computes it (the name of the pointed-to type)
  and its message; the document posted for an invocation error is the JSON encoding of
  \<open>messages.InvokeResponse_Error\<close> by \<open>json.Marshal\<close>, with no stack trace.\<close>

fun decode_error_type :: "decode_error \<Rightarrow> go_string" where
  "decode_error_type (SyntaxErr e) = ''SyntaxError''"
| "decode_error_type ErrUnexpectedEOF = ''errorString''"
| "decode_error_type EOF = ''errorString''"

fun decode_error_msg :: "decode_error \<Rightarrow> go_string" where
  "decode_error_msg (SyntaxErr e) = se_msg e"
| "decode_error_msg ErrUnexpectedEOF = ''unexpected EOF''"
| "decode_error_msg EOF = ''EOF''"

definition json_Unmarshal ::
  "(go_string \<Rightarrow> (go_string \<times> go_string) + APIGatewayProxyRequest) \<Rightarrow> go_string \<Rightarrow>
   ((go_string \<times> go_string) + APIGatewayProxyRequest) option" where
  "json_Unmarshal d_unmarshal data =
     (case checkValid data of
        None \<Rightarrow> None
      | Some (Some e) \<Rightarrow> Some (Inl (decode_error_type (SyntaxErr e), decode_error_msg (SyntaxErr e)))
      | Some None \<Rightarrow> Some (d_unmarshal data))"

definition Decoder_Decode ::
  "(go_string \<Rightarrow> (go_string \<times> go_string) + APIGatewayProxyRequest) \<Rightarrow> go_string \<Rightarrow>
   ((go_string \<times> go_string) + APIGatewayProxyRequest) option" where
  "Decoder_Decode d_unmarshal data =
     (case Decoder_readValue data of
        None \<Rightarrow> None
      | Some (Inl e) \<Rightarrow> Some (Inl (decode_error_type e, decode_error_msg e))
      | Some (Inr n) \<Rightarrow> Some (d_unmarshal (take n data)))"

definition decode_event ::
  "handler_options \<Rightarrow> (go_string \<Rightarrow> (go_string \<times> go_string) + APIGatewayProxyRequest) \<Rightarrow> go_string \<Rightarrow>
   ((go_string \<times> go_string) + APIGatewayProxyRequest) option" where
  "decode_event opts d_unmarshal payload =
     (if useDecoder opts then Decoder_Decode d_unmarshal payload else json_Unmarshal d_unmarshal payload)"

definition lambda_handle ::
  "handler_options \<Rightarrow> ('e \<Rightarrow> go_string) \<Rightarrow> ('e \<Rightarrow> go_string) \<Rightarrow> 'e + go_string \<Rightarrow> lambda_context \<Rightarrow>
   (go_string \<Rightarrow> (go_string \<times> go_string) + APIGatewayProxyRequest) \<Rightarrow> go_string \<Rightarrow> lambda_outcome option" where
  "lambda_handle opts ErrorType Error getwd ctx d_unmarshal payload =
     (case decode_event opts d_unmarshal payload of
        None \<Rightarrow> None
      | Some event \<Rightarrow> lambda_invoke opts ErrorType Error getwd ctx event)"

definition error_payload :: "go_string \<Rightarrow> go_string \<Rightarrow> go_string" where
  "error_payload errorType errorMessage =
     json_encode True (JObject [(''errorMessage'', JString errorMessage), (''errorType'', JString errorType)])"

fun posted_payload :: "lambda_outcome \<Rightarrow> go_string" where
  "posted_payload (PostResponse p) = p"
| "posted_payload (PostError t m) = error_payload t m"

text \<open>The \<open>Encoder\<close>'s newline and the wrapper's \<open>out.Truncate(out.Len() - 1)\<close> cancel:
  every release posts the bare encoding of the response.\<close>

lemma encode_response_eq:
  "encode_response opts r = map_option (json_encode (jsonResponseEscapeHTML opts)) (json_of_response r)"
  by (simp add: encode_response_def Let_def)

lemma encode_response_Marshal: "encode_response json_Marshal_options r = Marshal r"
  by (simp add: encode_response_eq json_Marshal_options_def Marshal_def)

lemma lambda_invoke_decoded:
  "lambda_invoke opts ErrorType Error getwd ctx (Inr request) =
     map_option PostResponse (encode_response opts (fst (Handler Error ctx request getwd)))"
  by (simp add: lambda_invoke_def Handler_eq)

lemma encode_Handler_response:
  "\<exists>p. encode_response opts (fst (Handler Error ctx request getwd)) = Some p"
  by (simp add: encode_response_eq json_of_response_def Handler_eq)


text \<open>The runtime state machine of \<open>Runtime\<close> records the response of every decoded
  invocation; the wrapper posts exactly that response, encoded.\<close>

lemma rt_step_lambda_invoke:
  "\<exists>r. posted (rt_step Error s (Invoke ctx request)) = posted s @ [(AwsRequestID ctx, r)] \<and>
       lambda_invoke opts ErrorType Error (cwd s) ctx (Inr request) =
         map_option PostResponse (encode_response opts r)"
  by (simp add: lambda_invoke_decoded)

section \<open>Properties of an invocation\<close>

text \<open>C15. Every invocation is answered, and it is answered with an invocation error
  exactly when its event does not decode into a request: the decoder's error is then posted
  and the handler never runs; every decoded event is answered with the encoded response,
  whatever the working directory. The handler's guarantee never to fail thus covers
  every event that decodes, and only those.\<close>

theorem lambda_invoke_error_iff:
  "lambda_invoke opts ErrorType Error getwd ctx event \<noteq> None \<and>
   ((\<exists>t m. lambda_invoke opts ErrorType Error getwd ctx event = Some (PostError t m)) \<longleftrightarrow> isl event)"
proof (cases event)
  case (Inl tm)
  then show ?thesis
    by (cases tm) (simp add: lambda_invoke_def)
next
  case (Inr request)
  obtain p where "encode_response opts (fst (Handler Error ctx request getwd)) = Some p"
    using encode_Handler_response by blast
  with Inr show ?thesis
    by (simp add: lambda_invoke_decoded)
qed


section \<open>Decoding and posting\<close>

lemma json_of_response_depth: "json_of_response r = Some j \<Longrightarrow> json_depth j \<le> maxNestingDepth"
  by (auto simp: json_of_response_def maxNestingDepth_def split: if_splits)

lemma encode_response_valid:
  assumes "encode_response opts r = Some p"
  shows "checkValid p = Some None \<and> utf8_valid p"
proof -
  obtain j where j: "json_of_response r = Some j" and p: "p = json_encode (jsonResponseEscapeHTML opts) j"
    using assms by (auto simp: encode_response_eq)
  have "checkValid (json_encode (jsonResponseEscapeHTML opts) j @ []) = Some None"
    by (rule checkValid_encode_spaces [OF json_of_response_depth [OF j]]) simp
  then show ?thesis
    unfolding p using utf8_valid_json_encode by simp
qed

lemma error_payload_valid: "checkValid (error_payload t m) = Some None \<and> utf8_valid (error_payload t m)"
proof -
  let ?j = "JObject [(''errorMessage'', JString m), (''errorType'', JString t)]"
  have "json_depth ?j \<le> maxNestingDepth"
    by (simp add: maxNestingDepth_def)
  then have "checkValid (json_encode True ?j @ []) = Some None"
    by (rule checkValid_encode_spaces) simp
  then show ?thesis
    unfolding error_payload_def using utf8_valid_json_encode [of True ?j] by (simp only: append_Nil2 simp_thms)
qed

lemma lambda_invoke_posts_valid:
  "lambda_invoke opts ErrorType Error getwd ctx event = Some out \<Longrightarrow>
   checkValid (posted_payload out) = Some None \<and> utf8_valid (posted_payload out)"
  using encode_response_valid error_payload_valid
  by (auto simp: lambda_invoke_def split: sum.splits prod.splits option.splits)

text \<open>C14. Whatever the payload, the environment and the outcome of the handler, the
  document posted to the Runtime API, the encoded response or the invocation error, is
  well-formed UTF-8 and passes \<open>encoding/json\<close>'s own syntax check.\<close>

theorem lambda_handle_posts_json:
  "lambda_handle opts ErrorType Error getwd ctx d_unmarshal payload = Some out \<Longrightarrow>
   checkValid (posted_payload out) = Some None \<and> utf8_valid (posted_payload out)"
  by (auto simp: lambda_handle_def lambda_invoke_posts_valid split: option.splits)

text \<open>C22. In releases that decode with \<open>json.Unmarshal\<close>, a payload that fails the syntax
  check is answered with a \<open>SyntaxError\<close> invocation error carrying the scanner's message,
  and neither the struct decoder nor the handler runs.\<close>

theorem lambda_handle_syntax_error:
  "\<not> useDecoder opts \<Longrightarrow> checkValid payload = Some (Some e) \<Longrightarrow>
   lambda_handle opts ErrorType Error getwd ctx d_unmarshal payload = Some (PostError ''SyntaxError'' (se_msg e))"
  by (simp add: lambda_handle_def decode_event_def json_Unmarshal_def lambda_invoke_def)

lemma lambda_handle_empty_payload:
  "lambda_handle opts ErrorType Error getwd ctx d_unmarshal [] =
     Some (if useDecoder opts then PostError ''errorString'' ''EOF''
           else PostError ''SyntaxError'' ''unexpected end of JSON input'')"
  by (simp add: lambda_handle_def decode_event_def json_Unmarshal_def Decoder_Decode_def
      Decoder_readValue_def checkValid_def scan_eof_def scan_step_def state_defs isSpace_def
      scan_reset_def zero_scanner_def nonSpace_def lambda_invoke_def)

text \<open>C32. The two decoders of the releases disagree on a payload that holds a JSON object
  followed by other data. \<open>json.Unmarshal\<close> rejects it with the \<open>SyntaxError\<close> "invalid
  character ... after top-level value", naming the first byte after the object that is not
  white space; the \<open>Decoder\<close> decodes the object alone and ignores the rest.\<close>

theorem lambda_decode_trailing_data:
  "json_depth (JObject fs) \<le> maxNestingDepth \<Longrightarrow> \<not> isSpace c \<Longrightarrow>
   decode_event opts d_unmarshal (json_encode h (JObject fs) @ c # rest) =
     Some (if useDecoder opts then d_unmarshal (json_encode h (JObject fs))
           else Inl (''SyntaxError'', ''invalid character '' @ quoteChar c @ '' after top-level value''))"
proof -
  assume d: "json_depth (JObject fs) \<le> maxNestingDepth" and c: "\<not> isSpace c"
  define D where "D = json_encode h (JObject fs)"
  have "Decoder_readValue (D @ c # rest) = Some (Inr (length D))"
    using Decoder_readValue_object [OF d] unfolding D_def by blast
  moreover have "checkValid (D @ c # rest) =
      Some (Some \<lparr>se_msg = ''invalid character '' @ quoteChar c @ '' after top-level value'',
                  se_Offset = Suc (length D)\<rparr>)"
    using checkValid_object_trailing [OF d c] unfolding D_def by blast
  ultimately show ?thesis
    unfolding D_def [symmetric] by (simp add: decode_event_def Decoder_Decode_def json_Unmarshal_def)
qed

section \<open>Witnesses\<close>

theorem lambda_handle_posts_json_witness:
  "lambda_handle json_Marshal_options (\<lambda>_ :: unit. []) (\<lambda>_. []) (Inr ''/srv/app'') example_context
     (\<lambda>_. Inr example_request) ''{'' = Some (PostError ''SyntaxError'' ''unexpected end of JSON input'') \<and>
   checkValid (posted_payload (PostError ''SyntaxError'' ''unexpected end of JSON input'')) = Some None \<and>
   utf8_valid (posted_payload (PostError ''SyntaxError'' ''unexpected end of JSON input''))"
proof -
  have h: "lambda_handle json_Marshal_options (\<lambda>_ :: unit. []) (\<lambda>_. []) (Inr ''/srv/app'') example_context
     (\<lambda>_. Inr example_request) ''{'' = Some (PostError ''SyntaxError'' ''unexpected end of JSON input'')"
    by (simp add: lambda_handle_def decode_event_def json_Unmarshal_def json_Marshal_options_def
        checkValid_def scan_eof_def scan_step_def state_defs isSpace_def scan_reset_def zero_scanner_def
        pushParseState_def maxNestingDepth_def lambda_invoke_def)
  show ?thesis
    using lambda_handle_posts_json [OF h] h by simp
qed

theorem lambda_handle_syntax_error_witness:
  "\<not> useDecoder json_Marshal_options \<and>
   checkValid ''{'' = Some (Some \<lparr>se_msg = ''unexpected end of JSON input'', se_Offset = 1\<rparr>) \<and>
   lambda_handle json_Marshal_options (\<lambda>_ :: unit. []) (\<lambda>_. []) (Inr ''/srv/app'') example_context
     (\<lambda>_. Inr example_request) ''{'' = Some (PostError ''SyntaxError'' ''unexpected end of JSON input'')"
proof -
  have u: "\<not> useDecoder json_Marshal_options"
    by (simp add: json_Marshal_options_def)
  have c: "checkValid ''{'' = Some (Some \<lparr>se_msg = ''unexpected end of JSON input'', se_Offset = 1\<rparr>)"
    by (simp add: checkValid_def scan_eof_def scan_step_def state_defs isSpace_def scan_reset_def
        zero_scanner_def pushParseState_def maxNestingDepth_def)
  show ?thesis
    using lambda_handle_syntax_error [OF u c, of "\<lambda>_ :: unit. []" "\<lambda>_. []" "Inr ''/srv/app''"
        example_context "\<lambda>_. Inr example_request"] u c by simp
qed

theorem lambda_decode_trailing_data_witness:
  "json_depth (JObject [(''a'', JString ''b'')]) \<le> maxNestingDepth \<and> \<not> isSpace (CHR ''x'') \<and>
   decode_event json_Marshal_options (\<lambda>_. Inr example_request) (json_encode True (JObject [(''a'', JString ''b'')]) @ ''x'') =
     Some (Inl (''SyntaxError'', ''invalid character '' @ quoteChar (CHR ''x'') @ '' after top-level value'')) \<and>
   decode_event (json_Marshal_options\<lparr>useDecoder := True\<rparr>) (\<lambda>d. Inl (''UnmarshalTypeError'', d)) (''{\"a\":\"b\"}'' @ ''x'') =
     Some (Inl (''UnmarshalTypeError'', ''{\"a\":\"b\"}''))"
proof -
  have d: "json_depth (JObject [(''a'', JString ''b'')]) \<le> maxNestingDepth" "\<not> isSpace (CHR ''x'')"
    by (simp_all add: maxNestingDepth_def isSpace_def)
  have e: "json_encode True (JObject [(''a'', JString ''b'')]) = ''{\"a\":\"b\"}''"
    by (simp add: appendString_unfold copied_raw_def html_safe_byte_def safe_byte_def)
  show ?thesis
    using d lambda_decode_trailing_data [OF d, of json_Marshal_options "\<lambda>_. Inr example_request" True "[]"]
      lambda_decode_trailing_data [OF d, of "json_Marshal_options\<lparr>useDecoder := True\<rparr>" "\<lambda>d. Inl (''UnmarshalTypeError'', d)" True "[]"]
    unfolding e by (simp add: json_Marshal_options_def)
qed

end
