(* ===== verification/Spec2Isabelle.thy ===== *)
theory Spec2Isabelle
  imports Spec Lambda
begin

text \<open>
  \<^bold>\<open>A verification development for app-lambda-cam.\<close>
  The repository is one Go file, \<open>src/main.go\<close>: an AWS Lambda function behind API
  Gateway. \<open>main\<close> (lines 35--38) registers \<open>Handler\<close> with the Lambda runtime
  (\<open>lambda.Start\<close>); \<open>Handler\<close> (lines 14--33) ignores its request, reads the working
  directory with \<open>os.Getwd\<close>, and answers 200 with
  \<open>"O diretorio corrente e: " + filepath.Base(dir)\<close>, or 500 with
  \<open>"Erro ao obter o diretorio corrente: " + err.Error()\<close>, always with a nil error.
  (The source writes the messages with an o-acute and an e-acute; the model holds their
  UTF-8 bytes, \<open>CHR 0xC3, CHR 0xB3\<close> and \<open>CHR 0xC3, CHR 0xA9\<close>, exactly as Go
  compiles them; the prose here spells them without accents.)

  \<^bold>\<open>Theories.\<close>
  \<^item> \<open>Prelude\<close>: Go strings as byte lists (\<open>char\<close> is a byte), list lemmas about
    scanning from the end.
  \<^item> \<open>Filepath\<close>: \<open>filepath.Base\<close> for Linux, translated loop by loop from the Go
    standard library (\<open>strip_trailing_separators\<close>, \<open>last_separator\<close> with its
    \<open>int\<close> index that stops at -1, \<open>Base\<close>); an abstract specification
    \<open>base_spec\<close> (the last nonempty segment) and the proof that they agree; the shape,
    idempotence and sublist facts the handler's body relies on.
  \<^item> \<open>Fmt\<close>: \<open>fmt.Sprintf\<close> for string arguments, the byte scan \<open>doPrintf\<close> with
    Go's error strings for missing and extra arguments and bad verbs; \<open>%x\<close> through
    8-bit words. The fragment without flags, width, precision, indices and \<open>%q\<close> is
    modelled; outside it the model returns \<open>None\<close>. Its lemmas: literal text and
    \<open>%s\<close> arguments are copied verbatim, the scan is total on the fragment.
  \<^item> \<open>Handler\<close>: the request, response and context records with the field names of
    \<open>aws-lambda-go/events\<close>, the two format literals as their UTF-8 bytes, and
    \<open>Handler\<close>, generic in Go's \<open>error\<close> interface (a type \<open>'e\<close> and its
    \<open>Error()\<close> method). Its lemmas give the response on each branch, the status codes,
    the nil error, that the body decodes back to the outcome, and that the request does
    not matter.
  \<^item> \<open>Runtime\<close>: \<open>main\<close>/\<open>lambda.Start\<close> as a state machine over invocation
    events and environment events (the directory changed or removed), with reachable
    states, an invariant proved by rule induction, idempotence of repeated invocations
    and one response per invocation.
  \<^item> \<open>Errors\<close>: the error values \<open>os.Getwd\<close> returns on Linux
    (\<open>syscall.Errno\<close> as a \<open>64 word\<close>, \<open>*os.SyscallError\<close>, \<open>*os.PathError\<close>) and
    their \<open>Error()\<close> methods, which produce the text after the colon of the 500 body;
    \<open>internal/itoa\<close>'s digit loop on words, proved to print the signed decimal value
    (a round trip through a reference parser) and to fit its 20-byte buffer;
    \<open>Errno.Error\<close> keeps the conversion \<open>int(e)\<close> of the source. The platform's
    message table is a parameter of every theorem; its first Linux entries, given as
    \<open>linux_errors_prefix\<close>, serve the concrete examples.
  \<^item> \<open>Getwd\<close>: \<open>os.Getwd\<close> for Linux as in Go 1.22: \<open>stat(".")\<close>, the
    \<open>$PWD\<close> shortcut when it is absolute and names the same file (device and inode),
    otherwise \<open>syscall.Getwd\<close> (the \<open>getcwd\<close> buffer of \<open>PathMax\<close> bytes and its
    NUL and absoluteness checks) retried while it fails with \<open>EINTR\<close>; every \<open>stat\<close>
    goes through \<open>os.ignoringEINTR\<close>. The operating system is a record \<open>os_env\<close>:
    \<open>PWD\<close>, \<open>stat_sys\<close> (the result of the \<open>k\<close>-th \<open>stat\<close> of each path) and
    \<open>getcwd_sys\<close> (the result of the \<open>k\<close>-th call). The retry loop
    \<open>ignoringEINTR\<close> is a \<^theory_text>\<open>partial_function (option)\<close>; its lemmas
    characterise exactly when it returns and what, that interruptions do not change the
    result, that a successful result is absolute, and the shape of every error.
  \<^item> \<open>Spec\<close>: the abstract specification of the specification document (a
    response is a status code and a body; \<open>handle_spec\<close> answers 200 with a text and
    \<open>base_spec\<close> of the directory, or 500 with a text and the error message; a machine of
    invocations and directory changes) and the refinement proof: \<open>rt_abs\<close> lifts runtime
    states to specification states, \<open>Handler\<close> refines \<open>handle_spec\<close>, and every run
    of the runtime refines the specification's run on the same events.
  \<^item> \<open>Utf8\<close>: well-formed UTF-8 as Go's \<open>utf8.ValidString\<close> defines it, the text
    type of the JSON body; every ASCII byte of a well-formed string is a boundary, so
    \<open>filepath.Base\<close>, the \<open>getcwd\<close> buffer without its NUL and the errno messages
    keep it; a Latin-1 directory name shows that the body need not be UTF-8.
  \<^item> \<open>Json\<close>: the JSON encoding of the response that \<open>lambda.Start\<close> posts,
    as \<open>encoding/json\<close> does it: the string encoder \<open>appendString\<close> translated with
    its two indices and proved equal to a reference encoder \<open>json_escape\<close>, a reference
    decoder \<open>json_unescape\<close> and the round trip for well-formed UTF-8, and the struct
    encoding of \<open>APIGatewayProxyResponse\<close> through a JSON value (\<open>Marshal\<close>).
  \<^item> \<open>Scanner\<close>: the syntax check of \<open>encoding/json\<close> that decodes every event
    payload: the scanner's state machine (a record of the stored step function, the
    \<open>endTop\<close> flag, the parse stack, the first error and the byte count), one definition
    per Go step function \<open>stateX\<close> with its exact error messages (\<open>quoteChar\<close> through
    \<open>strconv.Quote\<close>), \<open>checkValid\<close> as \<open>json.Unmarshal\<close> runs it, and
    \<open>Decoder.readValue\<close> as \<open>json.Decoder\<close> runs it on a buffered payload. Its lemmas:
    every document the encoder of \<open>Json\<close> writes passes the check (a run of the scanner
    over the encoder's output, the compiler-correctness pattern, through \<open>quiet_run\<close>, a
    run over bytes that neither end nor break the top-level value, on which the loops of
    \<open>checkValid\<close> and of \<open>readValue\<close> agree), what the two loops do on an object
    followed by other data, that the encoder's output is well-formed UTF-8,
    the check never reaches the unchecked stack index of \<open>stateBeginStringOrEmpty\<close> (an
    invariant of every step), and the nesting limit of 10000 levels.
  \<^item> \<open>Lambda\<close>: one invocation as \<open>aws-lambda-go\<close>'s wrapper performs it: the event
    payload decoded by \<open>json.Unmarshal\<close> or by a \<open>json.Decoder\<close> according to the
    release (\<open>handler_options\<close>), the decoder's error posted as an invocation error with
    its type name and message, otherwise the handler call and the encoding of the response
    with the options of the release (\<open>json.Marshal\<close>, or an encoder with HTML escaping
    off whose trailing newline the wrapper truncates again, as \<open>main.go\<close> sets no
    indent); the document posted for an invocation error. Its lemmas: an invocation error
    is posted exactly for an event that does not decode, every posted document is UTF-8
    JSON that passes the syntax check, a syntax error reaches the caller with the
    scanner's message, and the two decoders differ on an encoded object followed by other
    data (and on the empty payload).
  \<^item> this theory: \<open>invoke\<close>, one invocation of \<open>Handler\<close> on the outcome of
    \<open>Getwd\<close> in an environment, and end-to-end statements across the components (the
    \<open>/srv/app\<close> scenario, a runtime trace, the root directory, the \<open>ENOENT\<close> body, the
    success and failure properties of the specification through \<open>os.Getwd\<close>, a run
    with interrupted system calls, that the \<open>EINTR\<close> message never reaches the
    caller, the report of \<open>$PWD\<close> whenever it names the working directory, that the
    body is well-formed UTF-8 whenever the names the system supplies and the errno
    messages are, and the document every release posts for every response).

  \<^bold>\<open>What the environment provides.\<close> The outcome of \<open>os.Getwd\<close> is an input of
  the handler (an error or a directory); the runtime's state records it and environment
  events change it. The handler and the runtime are generic in the error type; the
  \<open>Errors\<close> theory gives Go's concrete error values and \<open>Getwd\<close> computes the
  outcome from an operating-system environment, which \<open>invoke\<close> feeds to the handler. Go's standard library functions are modelled for \<open>GOOS=linux\<close>,
  the Lambda platform.

  \<^bold>\<open>Not modelled.\<close> Filling \<open>events.APIGatewayProxyRequest\<close> from a syntactically
  valid payload (\<open>decodeState.unmarshal\<close> by reflection over a large nested struct that
  lives in another repository): its outcome, a decoding error or the request, is the input
  \<open>d_unmarshal\<close> of \<open>Lambda\<close>; the syntax check before it is modelled. The HTTP
  exchange with the Lambda Runtime API (the runtime's I/O: fetching the next event and
  posting the document \<open>posted_payload\<close> computes). The encoding of non-empty header
  maps (sorted keys), which the handler never produces (\<open>Marshal\<close> returns \<open>None\<close>
  there). Which \<open>aws-lambda-go\<close> release is used is not recorded in the repository, so
  the release's choices are the parameters \<open>handler_options\<close> and every theorem about an
  invocation holds for all of them. The file system itself (only the results of
  \<open>stat\<close> and \<open>getcwd\<close> are modelled); the slow path of \<open>os.Getwd\<close> for systems
  without a \<open>getcwd\<close> call, which Linux never takes; \<open>Sprintf\<close> formats outside the
  fragment above, which the handler does not use.

  \<^bold>\<open>Bounds and termination.\<close> There is no fuel: both loops of \<open>filepath.Base\<close> are
  \<^theory_text>\<open>function\<close>s with measures (the length of the path; the index plus one), the
  format scan is structural recursion on the format, the runtime runs a finite list
  of events, and \<open>Uitoa\<close>'s loop is a \<^theory_text>\<open>function\<close> whose measure is the
  value itself (it is divided by 10 each round); \<open>appendString_loop\<close> terminates by
  the bytes left after its index, and \<open>json_escape\<close> by the length of its input; the
  JSON scanner is driven by structural recursion over the payload, one byte per step, and
  its parse stack is bounded by \<open>maxNestingDepth\<close> (10000), beyond which it stops with
  "exceeded max depth". The byte count \<open>bytes\<close> (an \<open>int64\<close> in Go) is a \<open>nat\<close>: a
  Lambda payload is at most a few megabytes. The loops that may not end are
  the retries on \<open>EINTR\<close> (\<open>os.ignoringEINTR\<close> around each \<open>stat\<close>, and the loop
  around \<open>syscall.Getwd\<close>, which has the same shape): one
  \<^theory_text>\<open>partial_function (option)\<close> with no bound, over the sequence of results of
  the call it repeats; its theorems say it returns exactly when some call is not
  interrupted, and with the result of the first such call. Status codes are Go \<open>int\<close>s holding the constants 200 and 500, modelled as
  \<open>int\<close>; the hex verb's nibbles are computed on \<open>8 word\<close> and bounded below 16.
\<close>

section \<open>The handler over the operating system\<close>

text \<open>One invocation of \<open>Handler\<close> with \<open>os.Getwd\<close> run against an operating
  system environment, the error values of Go and a message table: \<open>None\<close> when
  \<open>os.Getwd\<close> does not return.\<close>

definition invoke ::
  "go_string list \<Rightarrow> os_env \<Rightarrow> lambda_context \<Rightarrow> APIGatewayProxyRequest \<Rightarrow>
   (APIGatewayProxyResponse \<times> go_error option) option" where
  "invoke errors env ctx request =
     map_option (\<lambda>r. Handler (go_Error errors) ctx request (getwd_outcome r)) (Getwd env)"

definition example_env_symlink :: os_env where
  "example_env_symlink =
     \<lparr>PWD = ''/var/link'', stat_sys = (\<lambda>p k. Inr (1, 7)),
      getcwd_sys = (\<lambda>k. Inr (''/var/task'' @ [CHR 0x00]))\<rparr>"

definition example_env_denied :: os_env where
  "example_env_denied =
     \<lparr>PWD = ''/var/task'', stat_sys = (\<lambda>p k. Inl 13),
      getcwd_sys = (\<lambda>k. Inr (''/var/task'' @ [CHR 0x00]))\<rparr>"

section \<open>End-to-end behaviour\<close>

text \<open>The end-to-end scenario of the specification: with working directory
  \<open>/srv/app\<close> the handler answers status 200 with body
  \<open>"O diretorio corrente e: app"\<close> (UTF-8), whatever the request.\<close>

theorem end_to_end_srv_app:
  "Handler Error ctx request (Inr ''/srv/app'') =
     (\<lparr>StatusCode = 200, Headers = Map.empty, MultiValueHeaders = Map.empty,
       Body = ''O diret'' @ [CHR 0xC3, CHR 0xB3] @ ''rio corrente '' @ [CHR 0xC3, CHR 0xA9] @ '': app'',
       IsBase64Encoded = False\<rparr>, None)"
  by (simp add: Handler_eq Base_eq_slash success_prefix_def)

text \<open>A run of the deployed function: started in \<open>/var/task\<close>, one invocation is
  answered 200 with \<open>task\<close>; after the directory is removed, the next invocation is
  answered 500 with the error's message; no invocation error is ever posted.\<close>

theorem end_to_end_runtime:
  "posted (main Error (Inr ''/var/task'')
      [Invoke example_context example_request, CwdLost err, Invoke example_context example_request]) =
     [(''req-1'', \<lparr>StatusCode = 200, Headers = Map.empty, MultiValueHeaders = Map.empty,
                  Body = success_prefix @ ''task'', IsBase64Encoded = False\<rparr>),
      (''req-1'', \<lparr>StatusCode = 500, Headers = Map.empty, MultiValueHeaders = Map.empty,
                  Body = error_prefix @ Error err, IsBase64Encoded = False\<rparr>)] \<and>
   errors_posted (main Error (Inr ''/var/task'')
      [Invoke example_context example_request, CwdLost err, Invoke example_context example_request]) = []"
  by (simp add: main_def rt_init_def Handler_eq Base_eq_slash example_context_def)

text \<open>When the working directory is the root \<open>/\<close>, which has no final segment,
  the body reports \<open>"/"\<close> itself.\<close>

theorem end_to_end_root:
  "Body (fst (Handler Error ctx request (Inr ''/''))) = success_prefix @ ''/'' \<and>
   StatusCode (fst (Handler Error ctx request (Inr ''/''))) = 200"
  by (simp add: Handler_eq Base_eq_slash)


text \<open>The failure Lambda reports when the function's directory has been removed:
  \<open>os.Getwd\<close> wraps the \<open>ENOENT\<close> of the \<open>getcwd\<close> system call (errno 2) in an
  \<open>*os.SyscallError\<close> named \<open>getwd\<close>, and the handler answers 500 with
  \<open>"Erro ao obter o diretorio corrente: getwd: no such file or directory"\<close>, for any
  message table that names errno 2 as Linux does.\<close>

theorem end_to_end_getwd_enoent:
  assumes "2 < length errors" and "errors ! 2 = ''no such file or directory''"
  shows "Handler (go_Error errors) ctx request (Inl (SyscallError ''getwd'' (Errno 2))) =
     (\<lparr>StatusCode = 500, Headers = Map.empty, MultiValueHeaders = Map.empty,
       Body = error_prefix @ ''getwd: no such file or directory'', IsBase64Encoded = False\<rparr>, None)"
  using assms by (simp add: Handler_eq Errno_Error_def)

text \<open>A run through the whole stack: with no usable \<open>$PWD\<close>, three \<open>getcwd\<close>
  calls interrupted by signals and the fourth answering \<open>/var/task\<close>, the handler answers
  200 with \<open>task\<close>.\<close>

theorem end_to_end_eintr_retried:
  "invoke errors example_env ctx request =
     Some (\<lparr>StatusCode = 200, Headers = Map.empty, MultiValueHeaders = Map.empty,
            Body = success_prefix @ ''task'', IsBase64Encoded = False\<rparr>, None)"
  by (simp add: invoke_def getwd_eval example_env_def getwd_outcome_def Handler_eq Base_eq_slash)

text \<open>The message of an interrupted system call never reaches the caller: whatever
  the environment, the 500 body is never the one for \<open>getwd: interrupted system call\<close>.\<close>

theorem end_to_end_no_eintr_message:
  assumes "invoke linux_errors_prefix env ctx request = Some (resp, e)"
  shows "Body resp \<noteq> error_prefix @ ''getwd: interrupted system call''"
proof
  assume body: "Body resp = error_prefix @ ''getwd: interrupted system call''"
  from assms obtain r where r: "Getwd env = Some r"
    and resp: "(resp, e) = Handler (go_Error linux_errors_prefix) ctx request (getwd_outcome r)"
    by (auto simp add: invoke_def)
  obtain dir err where rr: "r = (dir, err)" by fastforce
  show False
  proof (cases err)
    case None
    with resp rr body have "success_prefix @ Base dir = error_prefix @ ''getwd: interrupted system call''"
      by (simp add: Handler_eq getwd_outcome_def)
    then have "prefix error_prefix (success_prefix @ Base dir)"
      by (metis prefixI)
    with prefixes_differ(2) show False by blast
  next
    case (Some er)
    with resp rr body have msg: "go_Error linux_errors_prefix er = ''getwd: interrupted system call''"
      by (simp add: Handler_eq getwd_outcome_def)
    from r rr Some obtain n where "n \<noteq> EINTR"
      "er = PathError ''stat'' ''.'' (Errno n) \<or> er = SyscallError ''getwd'' (Errno n)"
      using Getwd_error_form by blast
    with msg show False
      using Errno_Error_linux_EINTR by auto
  qed
qed

lemma statNolog_after_EINTR:
  "\<forall>i<k. stat_sys env name i = Inl EINTR \<Longrightarrow> stat_sys env name k = Inr fi \<Longrightarrow>
   statNolog env name = Some (Inr fi)"
  using ignoringEINTR_returns [of 0 k "stat_sys env name"] by (simp add: statNolog_def)

lemma invoke_Getwd_dir:
  "Getwd env = Some (dir, None) \<Longrightarrow>
   invoke errors env ctx request =
     Some (\<lparr>StatusCode = 200, Headers = Map.empty, MultiValueHeaders = Map.empty,
            Body = success_prefix @ Base dir, IsBase64Encoded = False\<rparr>, None)"
  by (simp add: invoke_def getwd_outcome_def Handler_eq)

text \<open>C33. When \<open>$PWD\<close> is an absolute path that names the working directory, for
  instance a symbolic link to it, \<open>os.Getwd\<close> returns \<open>$PWD\<close> once both \<open>stat\<close> calls
  return, after any number of interrupted attempts, and the handler reports the final
  segment of \<open>$PWD\<close>, whatever name the kernel's \<open>getcwd\<close> would give: the "final path
  segment" of the specification is that of the logical path.\<close>

theorem end_to_end_pwd_symlink:
  assumes "PWD env \<noteq> []" and "hd (PWD env) = CHR ''/''"
    and "\<forall>i<k. stat_sys env ''.'' i = Inl EINTR" and "stat_sys env ''.'' k = Inr dot"
    and "\<forall>i<m. stat_sys env (PWD env) i = Inl EINTR" and "stat_sys env (PWD env) m = Inr d"
    and "SameFile dot d"
  shows "invoke errors env ctx request =
     Some (\<lparr>StatusCode = 200, Headers = Map.empty, MultiValueHeaders = Map.empty,
            Body = success_prefix @ Base (PWD env), IsBase64Encoded = False\<rparr>, None)"
proof -
  have "statNolog env ''.'' = Some (Inr dot)" "statNolog env (PWD env) = Some (Inr d)"
    using statNolog_after_EINTR assms(3-6) by blast+
  moreover have "0 < length (PWD env) \<and> PWD env ! 0 = CHR ''/''"
    using assms(1,2) by (cases "PWD env") simp_all
  ultimately have "Getwd env = Some (PWD env, None)"
    using assms(7) by (simp add: Getwd_def)
  then show ?thesis
    by (rule invoke_Getwd_dir)
qed

text \<open>C34. The first testable property of the specification, through \<open>os.Getwd\<close>:
  with \<open>$PWD\<close> unset, \<open>stat(".")\<close> returning after any number of interrupted
  attempts, and the working directory \<open>D\<close> (an absolute path that fits \<open>PathMax\<close>)
  reported by the first \<open>getcwd\<close> call that is not interrupted, the handler answers 200
  with the final segment of \<open>D\<close>.\<close>

theorem end_to_end_working_directory:
  assumes "PWD env = []"
    and "\<forall>i<k. stat_sys env ''.'' i = Inl EINTR" and "stat_sys env ''.'' k = Inr dot"
    and "\<forall>i<j. interrupted env i" and "getcwd_sys env j = Inr (D @ [CHR 0x00])"
    and "D \<noteq> []" and "hd D = CHR ''/''" and "length D < PathMax"
  shows "invoke errors env ctx request =
     Some (\<lparr>StatusCode = 200, Headers = Map.empty, MultiValueHeaders = Map.empty,
            Body = success_prefix @ Base D, IsBase64Encoded = False\<rparr>, None)"
proof -
  have sys: "sys_Getwd (getcwd_sys env j) = Inr D"
    using assms(5-8) by (cases D) (simp_all add: sys_Getwd_def nth_append)
  then have "\<not> interrupted env j"
    by (simp add: interrupted_def)
  then have "getwd_retry env 0 = Some (Inr D)"
    using getwd_retry_returns [of 0 j env] assms(4) sys by simp
  moreover have "statNolog env ''.'' = Some (Inr dot)"
    using statNolog_after_EINTR assms(2,3) by blast
  ultimately have "Getwd env = Some (D, None)"
    using assms(1) by (simp add: Getwd_def NewSyscallError_def)
  then show ?thesis
    by (rule invoke_Getwd_dir)
qed

text \<open>C35. The failure path of the specification, through \<open>os.Getwd\<close>: when
  \<open>stat(".")\<close> fails with an errno \<open>e\<close> other than \<open>EINTR\<close>, after any number of
  interrupted attempts, the handler answers 500 with the error prefix
  followed by \<open>stat .: \<close> and the errno's message.\<close>

theorem end_to_end_stat_failure:
  assumes "\<forall>i<j. stat_sys env ''.'' i = Inl EINTR" and "stat_sys env ''.'' j = Inl e"
    and "e \<noteq> EINTR"
  shows "invoke errors env ctx request =
     Some (\<lparr>StatusCode = 500, Headers = Map.empty, MultiValueHeaders = Map.empty,
            Body = error_prefix @ ''stat .: '' @ Errno_Error errors e, IsBase64Encoded = False\<rparr>, None)"
proof -
  have "ignoringEINTR (stat_sys env ''.'') 0 = Some (Inl e)"
    using ignoringEINTR_returns [of 0 j "stat_sys env ''.''"] assms by simp
  then show ?thesis
    by (simp add: invoke_def Getwd_def statNolog_def getwd_outcome_def Handler_eq)
qed

lemma invoke_body_utf8:
  assumes inv: "invoke errors env ctx request = Some (resp, e)"
    and pwd: "utf8_valid (PWD env)"
    and bufs: "\<forall>k b. getcwd_sys env k = Inr b \<longrightarrow> utf8_valid b"
    and tbl: "list_all utf8_valid errors"
  shows "utf8_valid (Body resp)"
proof -
  from inv obtain r where r: "Getwd env = Some r"
    and resp: "(resp, e) = Handler (go_Error errors) ctx request (getwd_outcome r)"
    by (auto simp: invoke_def)
  have ok: "utf8_valid success_prefix" "utf8_valid error_prefix"
    by (simp_all add: success_prefix_def error_prefix_def utf8_accept_def)
  have err: "utf8_valid (error_prefix @ op @ Errno_Error errors n)"
    if "list_all ascii op" for op n
    using that ok(2) utf8_valid_Errno_Error [OF tbl, of n]
    by (simp add: utf8_valid_append utf8_valid_ascii)
  from r show ?thesis
  proof (cases rule: Getwd_cases)
    case (stat n)
    with resp err [of "''stat .: ''" n] show ?thesis
      by (simp add: Handler_eq getwd_outcome_def ascii_def)
  next
    case pwd
    with resp ok(1) utf8_valid_Base [OF \<open>utf8_valid (PWD env)\<close>] show ?thesis
      by (simp add: Handler_eq getwd_outcome_def utf8_valid_append)
  next
    case (syscall j)
    show ?thesis
    proof (cases "sys_Getwd (getcwd_sys env j)")
      case (Inl n)
      with syscall resp err [of "''getwd: ''" n] show ?thesis
        by (simp add: Handler_eq getwd_outcome_def NewSyscallError_def ascii_def)
    next
      case (Inr s)
      then obtain buf where buf: "getcwd_sys env j = Inr buf"
        by (cases "getcwd_sys env j") (simp_all add: sys_Getwd_def)
      with Inr have "buf = s @ [CHR 0x00]"
        by (simp add: sys_Getwd_Inr_buf)
      with buf bufs have "utf8_valid (s @ [CHR 0x00])"
        by simp
      then have "utf8_valid s"
        using utf8_valid_split [of s "[CHR 0x00]"] by (simp add: ascii_def)
      with syscall resp Inr ok(1) utf8_valid_Base [of s] show ?thesis
        by (simp add: Handler_eq getwd_outcome_def NewSyscallError_def utf8_valid_append)
    qed
  qed
qed

text \<open>C37. The body is always well-formed UTF-8 text when the names the operating
  system supplies and the messages of the errno table are: if \<open>$PWD\<close>, every path
  \<open>getcwd\<close> writes and every message of the table are well-formed UTF-8, the body of
  every response is too, on the success path (the accented format literal and
  \<open>filepath.Base\<close> of the directory) and on every error path (the errno messages and
  \<open>errno\<close> numbers).\<close>

theorem end_to_end_body_utf8:
  assumes "invoke errors env ctx request = Some (resp, e)"
    and "utf8_valid (PWD env)"
    and "\<forall>k b. getcwd_sys env k = Inr b \<longrightarrow> utf8_valid b"
    and "list_all utf8_valid errors"
  shows "utf8_valid (Body resp)"
  using assms by (rule invoke_body_utf8)

text \<open>C31. What Lambda posts, in every release: the JSON document \<open>lambda.Start\<close>
  sends for every response of the handler is the object with \<open>statusCode\<close>, null
  \<open>headers\<close> and \<open>multiValueHeaders\<close> and the \<open>body\<close> escaped as the release escapes
  strings (with HTML escaping under \<open>json.Marshal\<close>, without it by default under the
  \<open>Encoder\<close>), with no \<open>isBase64Encoded\<close> field and no trailing newline; and when the
  names the operating system supplies and the errno messages are well-formed UTF-8,
  decoding the body field gives back the body byte for byte.\<close>

theorem end_to_end_payload_roundtrip:
  assumes inv: "invoke errors env ctx request = Some (resp, e)"
    and pwd: "utf8_valid (PWD env)"
    and bufs: "\<forall>k b. getcwd_sys env k = Inr b \<longrightarrow> utf8_valid b"
    and tbl: "list_all utf8_valid errors"
  shows "encode_response opts resp =
     Some (''{'' @ [dquote] @ ''statusCode'' @ [dquote] @ '':'' @ int_decimal (StatusCode resp) @ '','' @
           [dquote] @ ''headers'' @ [dquote] @ '':null,'' @
           [dquote] @ ''multiValueHeaders'' @ [dquote] @ '':null,'' @
           [dquote] @ ''body'' @ [dquote] @ '':'' @ [dquote] @
           json_escape (jsonResponseEscapeHTML opts) (Body resp) @ [dquote] @ ''}'') \<and>
   json_unescape (json_escape (jsonResponseEscapeHTML opts) (Body resp)) = Some (Body resp)"
proof
  from inv obtain r where "Handler (go_Error errors) ctx request (getwd_outcome r) = (resp, e)"
    by (auto simp: invoke_def)
  then have "resp = fst (Handler (go_Error errors) ctx request (getwd_outcome r))"
    by simp
  then have "Headers resp = Map.empty" "MultiValueHeaders resp = Map.empty" "\<not> IsBase64Encoded resp"
    by (simp_all add: Handler_eq)
  then show "encode_response opts resp =
     Some (''{'' @ [dquote] @ ''statusCode'' @ [dquote] @ '':'' @ int_decimal (StatusCode resp) @ '','' @
           [dquote] @ ''headers'' @ [dquote] @ '':null,'' @
           [dquote] @ ''multiValueHeaders'' @ [dquote] @ '':null,'' @
           [dquote] @ ''body'' @ [dquote] @ '':'' @ [dquote] @
           json_escape (jsonResponseEscapeHTML opts) (Body resp) @ [dquote] @ ''}'')"
    unfolding encode_response_eq by (rule json_encode_response)
  have "utf8_valid (Body resp)"
    using inv pwd bufs tbl by (rule invoke_body_utf8)
  then show "json_unescape (json_escape (jsonResponseEscapeHTML opts) (Body resp)) = Some (Body resp)"
    by (rule json_escape_roundtrip_aux)
qed

section \<open>Witnesses\<close>

theorem end_to_end_getwd_enoent_witness:
  "2 < length linux_errors_prefix \<and> linux_errors_prefix ! 2 = ''no such file or directory'' \<and>
   Handler (go_Error linux_errors_prefix) example_context example_request
     (Inl (SyscallError ''getwd'' (Errno 2))) =
     (\<lparr>StatusCode = 500, Headers = Map.empty, MultiValueHeaders = Map.empty,
       Body = error_prefix @ ''getwd: no such file or directory'', IsBase64Encoded = False\<rparr>, None)"
proof -
  have h: "2 < length linux_errors_prefix" "linux_errors_prefix ! 2 = ''no such file or directory''"
    by (simp_all add: linux_errors_prefix_def)
  show ?thesis
    using h end_to_end_getwd_enoent [OF h] by simp
qed


theorem end_to_end_no_eintr_message_witness:
  "invoke linux_errors_prefix example_env_removed example_context example_request =
     Some (\<lparr>StatusCode = 500, Headers = Map.empty, MultiValueHeaders = Map.empty,
            Body = error_prefix @ ''getwd: no such file or directory'', IsBase64Encoded = False\<rparr>, None) \<and>
   error_prefix @ ''getwd: no such file or directory'' \<noteq> error_prefix @ ''getwd: interrupted system call''"
proof -
  have h: "invoke linux_errors_prefix example_env_removed example_context example_request =
     Some (\<lparr>StatusCode = 500, Headers = Map.empty, MultiValueHeaders = Map.empty,
            Body = error_prefix @ ''getwd: no such file or directory'', IsBase64Encoded = False\<rparr>, None)"
    by (simp add: invoke_def getwd_eval example_env_removed_def getwd_outcome_def Handler_eq
        Errno_Error_def linux_errors_prefix_def)
  show ?thesis
    using h end_to_end_no_eintr_message [OF h] by simp
qed


theorem end_to_end_working_directory_witness:
  "PWD example_env = [] \<and> stat_sys example_env ''.'' 0 = Inr (1, 7) \<and>
   interrupted example_env 0 \<and> interrupted example_env 1 \<and> interrupted example_env 2 \<and>
   getcwd_sys example_env 3 = Inr (''/var/task'' @ [CHR 0x00]) \<and>
   ''/var/task'' \<noteq> [] \<and> hd ''/var/task'' = CHR ''/'' \<and> length ''/var/task'' < PathMax \<and>
   invoke linux_errors_prefix example_env example_context example_request =
     Some (\<lparr>StatusCode = 200, Headers = Map.empty, MultiValueHeaders = Map.empty,
            Body = success_prefix @ Base ''/var/task'', IsBase64Encoded = False\<rparr>, None)"
proof -
  have h: "PWD example_env = []" "\<forall>i<0. stat_sys example_env ''.'' i = Inl EINTR"
    "stat_sys example_env ''.'' 0 = Inr (1, 7)"
    "\<forall>i<3. interrupted example_env i" "getcwd_sys example_env 3 = Inr (''/var/task'' @ [CHR 0x00])"
    "''/var/task'' \<noteq> []" "hd ''/var/task'' = CHR ''/''" "length ''/var/task'' < PathMax"
    by (simp_all add: example_env_def interrupted_def sys_Getwd_def EINTR_def PathMax_def)
  show ?thesis
    using h end_to_end_working_directory [OF h] by simp
qed

theorem end_to_end_stat_failure_witness:
  "stat_sys example_env_denied ''.'' 0 = Inl 13 \<and> (13 :: uintptr) \<noteq> EINTR \<and>
   invoke linux_errors_prefix example_env_denied example_context example_request =
     Some (\<lparr>StatusCode = 500, Headers = Map.empty, MultiValueHeaders = Map.empty,
            Body = error_prefix @ ''stat .: permission denied'', IsBase64Encoded = False\<rparr>, None)"
proof -
  have h: "\<forall>i<0. stat_sys example_env_denied ''.'' i = Inl EINTR"
    "stat_sys example_env_denied ''.'' 0 = Inl 13" "(13 :: uintptr) \<noteq> EINTR"
    by (simp_all add: example_env_denied_def EINTR_def)
  have "Errno_Error linux_errors_prefix 13 = ''permission denied''"
    by (simp add: Errno_Error_def linux_errors_prefix_def)
  then show ?thesis
    using h end_to_end_stat_failure [OF h, of linux_errors_prefix] by simp
qed


theorem end_to_end_body_utf8_witness:
  "invoke linux_errors_prefix example_env example_context example_request =
     Some (\<lparr>StatusCode = 200, Headers = Map.empty, MultiValueHeaders = Map.empty,
            Body = success_prefix @ ''task'', IsBase64Encoded = False\<rparr>, None) \<and>
   utf8_valid (PWD example_env) \<and>
   getcwd_sys example_env 0 = Inl EINTR \<and> getcwd_sys example_env 3 = Inr (''/var/task'' @ [CHR 0x00]) \<and>
   utf8_valid (''/var/task'' @ [CHR 0x00]) \<and> list_all utf8_valid linux_errors_prefix \<and>
   utf8_valid (success_prefix @ ''task'')"
proof -
  have h: "invoke linux_errors_prefix example_env example_context example_request =
     Some (\<lparr>StatusCode = 200, Headers = Map.empty, MultiValueHeaders = Map.empty,
            Body = success_prefix @ ''task'', IsBase64Encoded = False\<rparr>, None)"
    by (simp add: invoke_def getwd_eval example_env_def getwd_outcome_def Handler_eq Base_eq_slash)
  have p: "utf8_valid (PWD example_env)"
    by (simp add: example_env_def)
  have b: "\<forall>k b. getcwd_sys example_env k = Inr b \<longrightarrow> utf8_valid b"
    by (simp add: example_env_def EINTR_def)
  have "utf8_valid (success_prefix @ ''task'')"
    using end_to_end_body_utf8 [OF h p b utf8_valid_linux_errors] by simp
  then show ?thesis
    using h p utf8_valid_linux_errors by (simp add: example_env_def EINTR_def)
qed


theorem end_to_end_payload_roundtrip_witness:
  "invoke linux_errors_prefix example_env example_context example_request =
     Some (\<lparr>StatusCode = 200, Headers = Map.empty, MultiValueHeaders = Map.empty,
            Body = success_prefix @ ''task'', IsBase64Encoded = False\<rparr>, None) \<and>
   utf8_valid (PWD example_env) \<and>
   getcwd_sys example_env 0 = Inl EINTR \<and> getcwd_sys example_env 3 = Inr (''/var/task'' @ [CHR 0x00]) \<and>
   utf8_valid (''/var/task'' @ [CHR 0x00]) \<and> list_all utf8_valid linux_errors_prefix \<and>
   encode_response (json_Marshal_options\<lparr>jsonResponseEscapeHTML := False, useEncoder := True\<rparr>)
     \<lparr>StatusCode = 200, Headers = Map.empty, MultiValueHeaders = Map.empty,
      Body = success_prefix @ ''task'', IsBase64Encoded = False\<rparr> =
     Some (''{'' @ [dquote] @ ''statusCode'' @ [dquote] @ '':'' @ int_decimal 200 @ '','' @
           [dquote] @ ''headers'' @ [dquote] @ '':null,'' @
           [dquote] @ ''multiValueHeaders'' @ [dquote] @ '':null,'' @
           [dquote] @ ''body'' @ [dquote] @ '':'' @ [dquote] @
           json_escape False (success_prefix @ ''task'') @ [dquote] @ ''}'') \<and>
   json_unescape (json_escape False (success_prefix @ ''task'')) = Some (success_prefix @ ''task'')"
proof -
  have h: "invoke linux_errors_prefix example_env example_context example_request =
     Some (\<lparr>StatusCode = 200, Headers = Map.empty, MultiValueHeaders = Map.empty,
            Body = success_prefix @ ''task'', IsBase64Encoded = False\<rparr>, None)"
    by (simp add: invoke_def getwd_eval example_env_def getwd_outcome_def Handler_eq Base_eq_slash)
  have p: "utf8_valid (PWD example_env)"
    by (simp add: example_env_def)
  have b: "\<forall>k b. getcwd_sys example_env k = Inr b \<longrightarrow> utf8_valid b"
    by (simp add: example_env_def EINTR_def)
  show ?thesis
    using end_to_end_payload_roundtrip [OF h p b utf8_valid_linux_errors,
        of "json_Marshal_options\<lparr>jsonResponseEscapeHTML := False, useEncoder := True\<rparr>"]
      h p utf8_valid_linux_errors
    by (simp add: json_Marshal_options_def example_env_def EINTR_def)
qed

theorem end_to_end_pwd_symlink_witness:
  "PWD example_env_symlink \<noteq> [] \<and> hd (PWD example_env_symlink) = CHR ''/'' \<and>
   stat_sys example_env_symlink ''.'' 0 = Inr (1, 7) \<and> stat_sys example_env_symlink ''/var/link'' 0 = Inr (1, 7) \<and>
   SameFile (1, 7) (1, 7) \<and> sys_Getwd (getcwd_sys example_env_symlink 0) = Inr ''/var/task'' \<and>
   invoke linux_errors_prefix example_env_symlink example_context example_request =
     Some (\<lparr>StatusCode = 200, Headers = Map.empty, MultiValueHeaders = Map.empty,
            Body = success_prefix @ ''link'', IsBase64Encoded = False\<rparr>, None)"
proof -
  have h: "PWD example_env_symlink \<noteq> []" "hd (PWD example_env_symlink) = CHR ''/''"
    "\<forall>i<0. stat_sys example_env_symlink ''.'' i = Inl EINTR" "stat_sys example_env_symlink ''.'' 0 = Inr (1, 7)"
    "\<forall>i<0. stat_sys example_env_symlink (PWD example_env_symlink) i = Inl EINTR"
    "stat_sys example_env_symlink (PWD example_env_symlink) 0 = Inr (1, 7)" "SameFile (1, 7) (1, 7)"
    by (simp_all add: example_env_symlink_def SameFile_def)
  have "Base ''/var/link'' = ''link''"
    by (simp add: Base_eq_slash)
  then show ?thesis
    using end_to_end_pwd_symlink [OF h, of linux_errors_prefix example_context example_request] h
    by (simp add: example_env_symlink_def sys_Getwd_def PathMax_def)
qed

end
